theory Spec2Isabelle
  imports Complex_Main "HOL-Library.Multiset"
begin

text \<open>
  The record normalisation and box assignment engine of \<open>app.py\<close>: the column resolver
  \<open>_find_col\<close>, the value coercion \<open>_to_float\<close>, the VAT code normaliser
  \<open>normalise_vat_code\<close>, the classifier \<open>detect_source_type\<close>, the row loop of
  \<open>parse_excel\<close> and the aggregator \<open>assign_boxes\<close>. The functions keep their names, but for
  the leading underscore (\<open>find_col\<close>, \<open>to_float\<close>). What the code takes from Python and
  pandas is modelled beside it: strings, the regular expression search, floats, the cells
  and rows of a sheet, and dicts as their items in insertion order.
\<close>

section \<open>Python strings\<close>

text \<open>
  A Python \<open>str\<close> is modelled as a \<open>string\<close> of ASCII characters: \<open>lower\<close> maps
  \<open>A\<close>..\<open>Z\<close> only, and the whitespace of \<open>strip\<close> and of the pattern class \<open>\s\<close> is the
  ASCII part of Python's (code points 9 to 13, 28 to 31 and the blank).
\<close>

definition lower_char :: "char \<Rightarrow> char" where
  "lower_char c =
     (case map_of (zip ''ABCDEFGHIJKLMNOPQRSTUVWXYZ'' ''abcdefghijklmnopqrstuvwxyz'') c of
        Some d \<Rightarrow> d
      | None \<Rightarrow> c)"

definition lower :: "string \<Rightarrow> string" where
  "lower s = map lower_char s"

definition is_space :: "char \<Rightarrow> bool" where
  "is_space c =
     (c \<in> set [CHR 0x09, CHR 0x0A, CHR 0x0B, CHR 0x0C, CHR 0x0D,
                CHR 0x1C, CHR 0x1D, CHR 0x1E, CHR 0x1F, CHR '' ''])"

definition strip :: "string \<Rightarrow> string" where
  "strip s = rev (dropWhile is_space (rev (dropWhile is_space s)))"

text \<open>\<open>k in s\<close> on two strings: \<open>k\<close> occurs in \<open>s\<close> as a contiguous substring.\<close>

fun starts_with :: "string \<Rightarrow> string \<Rightarrow> bool" where
  "starts_with [] s = True"
| "starts_with (k # ks) [] = False"
| "starts_with (k # ks) (c # cs) = (k = c \<and> starts_with ks cs)"

fun py_in :: "string \<Rightarrow> string \<Rightarrow> bool" where
  "py_in k [] = (k = [])"
| "py_in k (c # cs) = (starts_with k (c # cs) \<or> py_in k cs)"

section \<open>The VAT code pattern\<close>

text \<open>
  The pattern language that \<open>VAT_CODE_REGEX\<close> uses, with the search of Python's \<open>re\<close>:
  the leftmost start wins, alternatives are tried in order, \<open>?\<close> and \<open>*\<close> are greedy and
  give way when the rest of the pattern fails. A matcher takes the rest of the pattern as
  a continuation; the state is the character before the position (for \<open>\b\<close>) and the text
  from the position on. The result is the text left after the match.
\<close>

datatype rx =
    Eps               \<comment> \<open>the empty pattern\<close>
  | Chr char          \<comment> \<open>a literal, compared ignoring case (flag \<open>(?i)\<close>)\<close>
  | Seq rx rx
  | Alt rx rx
  | Opt rx            \<comment> \<open>\<open>r?\<close>\<close>
  | Spaces            \<comment> \<open>\<open>\s*\<close>\<close>
  | WordB             \<comment> \<open>\<open>\b\<close>\<close>

type_synonym cont = "char option \<Rightarrow> string \<Rightarrow> string option"

fun spaces_star :: "cont \<Rightarrow> char option \<Rightarrow> string \<Rightarrow> string option" where
  "spaces_star k p [] = k p []"
| "spaces_star k p (c # cs) =
     (if is_space c
      then (case spaces_star k (Some c) cs of Some r \<Rightarrow> Some r | None \<Rightarrow> k p (c # cs))
      else k p (c # cs))"

definition is_word_char :: "char \<Rightarrow> bool" where
  "is_word_char c = (c \<in> set ''abcdefghijklmnopqrstuvwxyzABCDEFGHIJKLMNOPQRSTUVWXYZ0123456789_'')"

definition at_boundary :: "char option \<Rightarrow> string \<Rightarrow> bool" where
  "at_boundary p s =
     ((case p of None \<Rightarrow> False | Some c \<Rightarrow> is_word_char c)
      \<noteq> (case s of [] \<Rightarrow> False | c # _ \<Rightarrow> is_word_char c))"

primrec rx_match :: "rx \<Rightarrow> cont \<Rightarrow> cont" where
  "rx_match Eps = (\<lambda>k. k)"
| "rx_match (Chr a) = (\<lambda>k p s.
     (case s of [] \<Rightarrow> None
      | c # cs \<Rightarrow> if lower_char c = lower_char a then k (Some c) cs else None))"
| "rx_match (Seq a b) = (\<lambda>k. rx_match a (rx_match b k))"
| "rx_match (Alt a b) = (\<lambda>k p s.
     (case rx_match a k p s of Some r \<Rightarrow> Some r | None \<Rightarrow> rx_match b k p s))"
| "rx_match (Opt a) = (\<lambda>k p s.
     (case rx_match a k p s of Some r \<Rightarrow> Some r | None \<Rightarrow> k p s))"
| "rx_match Spaces = spaces_star"
| "rx_match WordB = (\<lambda>k p s. if at_boundary p s then k p s else None)"

text \<open>\<open>pattern.search(s)\<close>: the matched text \<open>m.group(0)\<close> of the leftmost match, if any.\<close>

fun rx_search_from :: "rx \<Rightarrow> char option \<Rightarrow> string \<Rightarrow> string option" where
  "rx_search_from r p s =
     (case rx_match r (\<lambda>_ rest. Some rest) p s of
        Some rest \<Rightarrow> Some (take (length s - length rest) s)
      | None \<Rightarrow> (case s of [] \<Rightarrow> None | c # cs \<Rightarrow> rx_search_from r (Some c) cs))"

definition rx_search :: "rx \<Rightarrow> string \<Rightarrow> string option" where
  "rx_search r s = rx_search_from r None s"

fun lit :: "string \<Rightarrow> rx" where
  "lit [] = Eps"
| "lit [c] = Chr c"
| "lit (c # cs) = Seq (Chr c) (lit cs)"

fun seqs :: "rx list \<Rightarrow> rx" where
  "seqs [] = Eps"
| "seqs [r] = r"
| "seqs (r # rs) = Seq r (seqs rs)"

text \<open>\<open>a|b|...\<close> over a non-empty list of alternatives.\<close>

fun alts :: "rx \<Rightarrow> rx list \<Rightarrow> rx" where
  "alts r [] = r"
| "alts r (r' # rs) = Alt r (alts r' rs)"

text \<open>
  \<^verbatim>\<open>(?i)(t\s*-?\s*20|t\s*-?\s*1|std|standard|20%|20) |(t\s*-?\s*0|zero|0%) |(exempt|e) |(vx|out\s*of\s*scope|oos) |(t\s*-?\s*5|5%|reduced) |(ni|northern\s*ireland|\bEU\b|\bEC\b)\<close>
  The pattern is compiled without the verbose flag, so the blank before each \<open>|\<close> is a
  literal: each of the first five groups must be followed by a blank.
\<close>

definition t_code :: "string \<Rightarrow> rx" where
  "t_code d = seqs [Chr CHR ''t'', Spaces, Opt (Chr CHR ''-''), Spaces, lit d]"

definition blank :: rx where
  "blank = Chr CHR '' ''"

definition VAT_CODE_REGEX :: rx where
  "VAT_CODE_REGEX =
     alts (Seq (alts (t_code ''20'') [t_code ''1'', lit ''std'', lit ''standard'', lit ''20%'', lit ''20'']) blank)
       [Seq (alts (t_code ''0'') [lit ''zero'', lit ''0%'']) blank,
        Seq (alts (lit ''exempt'') [lit ''e'']) blank,
        Seq (alts (lit ''vx'')
               [seqs [lit ''out'', Spaces, lit ''of'', Spaces, lit ''scope''], lit ''oos'']) blank,
        Seq (alts (t_code ''5'') [lit ''5%'', lit ''reduced'']) blank,
        alts (lit ''ni'')
          [seqs [lit ''northern'', Spaces, lit ''ireland''],
           seqs [WordB, lit ''EU'', WordB],
           seqs [WordB, lit ''EC'', WordB]]]"

text \<open>\<open>re.split(r"[^a-z0-9%]+", s)\<close>: the pieces between the maximal runs of other characters.\<close>

definition is_token_char :: "char \<Rightarrow> bool" where
  "is_token_char c = (c \<in> set ''abcdefghijklmnopqrstuvwxyz0123456789%'')"

fun re_split_from :: "bool \<Rightarrow> string \<Rightarrow> string \<Rightarrow> string list" where
  "re_split_from in_sep cur [] = [rev cur]"
| "re_split_from in_sep cur (c # cs) =
     (if is_token_char c then re_split_from False (c # cur) cs
      else if in_sep then re_split_from True cur cs
      else rev cur # re_split_from True [] cs)"

definition re_split :: "string \<Rightarrow> string list" where
  "re_split s = re_split_from False [] s"

section \<open>The token table\<close>

text \<open>\<open>NORMALISE_MAP\<close>, a dict: its items in insertion order.\<close>

definition NORMALISE_MAP :: "(string \<times> string) list" where
  "NORMALISE_MAP =
     [(''t20'', ''T20''), (''t1'', ''T20''), (''std'', ''T20''), (''standard'', ''T20''),
      (''20'', ''T20''), (''20%'', ''T20''),
      (''t0'', ''T0''), (''z'', ''T0''), (''zero'', ''T0''), (''0'', ''T0''), (''0%'', ''T0''),
      (''e'', ''EXEMPT''), (''exempt'', ''EXEMPT''),
      (''vx'', ''OOS''), (''oos'', ''OOS''), (''outofscope'', ''OOS''), (''out of scope'', ''OOS''),
      (''t5'', ''REDUCED''), (''5'', ''REDUCED''), (''5%'', ''REDUCED''), (''reduced'', ''REDUCED''),
      (''ni'', ''NI''), (''northern ireland'', ''NI''),
      (''eu'', ''EU''), (''ec'', ''EU''), (''eec'', ''EU'')]"

text \<open>\<open>for k, v in NORMALISE_MAP.items(): if k in txt: return v\<close>\<close>

fun first_hit :: "(string \<times> string) list \<Rightarrow> string \<Rightarrow> string option" where
  "first_hit [] txt = None"
| "first_hit ((k, v) # kvs) txt = (if py_in k txt then Some v else first_hit kvs txt)"

text \<open>\<open>for t in tokens: if t in NORMALISE_MAP: return NORMALISE_MAP[t]\<close>\<close>

fun token_hit :: "(string \<times> string) list \<Rightarrow> string list \<Rightarrow> string option" where
  "token_hit m [] = None"
| "token_hit m (t # ts) = (case map_of m t of Some v \<Rightarrow> Some v | None \<Rightarrow> token_hit m ts)"

section \<open>Python floats\<close>

text \<open>
  A Python \<open>float\<close> is an IEEE 754 binary64 value: a finite one is modelled by the rational
  number it stands for (the two zeros are one value: the program only compares them with
  \<open>== 0\<close> and adds them), and the infinities and NaN are values of their own. Every
  arithmetic result is rounded to the nearest representable value, ties to the even
  significand, with 53 bits of precision and exponents from -1022 to 1023.
\<close>

datatype pyfloat = Fin rat | PInf | NInf | NaN

definition pow2 :: "int \<Rightarrow> rat" where
  "pow2 e = (if 0 \<le> e then 2 ^ nat e else 1 / 2 ^ nat (- e))"

fun bit_length :: "nat \<Rightarrow> nat" where
  "bit_length n = (if n = 0 then 0 else Suc (bit_length (n div 2)))"

text \<open>The exponent \<open>e\<close> of a positive rational \<open>q\<close>: \<open>2^e \<le> q < 2^(e+1)\<close>.\<close>

definition exponent_of :: "rat \<Rightarrow> int" where
  "exponent_of q =
     (let (a, b) = quotient_of q;
          d = int (bit_length (nat a)) - int (bit_length (nat b))
      in if pow2 d \<le> q then d else d - 1)"

definition round_half_even :: "rat \<Rightarrow> int" where
  "round_half_even x =
     (let f = \<lfloor>x\<rfloor>; r = x - of_int f
      in if r < 1 / 2 then f else if 1 / 2 < r then f + 1 else if even f then f else f + 1)"

definition round_double :: "rat \<Rightarrow> pyfloat" where
  "round_double q =
     (if q = 0 then Fin 0
      else let e = max (exponent_of \<bar>q\<bar>) (- 1022);
               u = pow2 (e - 52);
               r = of_int (round_half_even (q / u)) * u
           in if 2 ^ 1024 \<le> \<bar>r\<bar> then (if 0 < q then PInf else NInf) else Fin r)"

text \<open>\<open>a + b\<close> on floats.\<close>

fun fadd :: "pyfloat \<Rightarrow> pyfloat \<Rightarrow> pyfloat" where
  "fadd (Fin a) (Fin b) = round_double (a + b)"
| "fadd NaN _ = NaN"
| "fadd _ NaN = NaN"
| "fadd PInf NInf = NaN"
| "fadd NInf PInf = NaN"
| "fadd PInf _ = PInf"
| "fadd _ PInf = PInf"
| "fadd NInf _ = NInf"
| "fadd _ NInf = NInf"

text \<open>\<open>x == 0\<close> on a float.\<close>

definition is_zero :: "pyfloat \<Rightarrow> bool" where
  "is_zero x = (x = Fin 0)"

section \<open>Cell values\<close>

text \<open>
  What a cell of a sheet read by pandas holds: \<open>None\<close>, a float (NaN is pandas' marker of
  a missing cell), an int, a bool, a string, or another object such as a timestamp. A float
  cell carries, beside its value, the text that \<open>str()\<close> renders it as (Python's shortest
  round-trip representation, which is not computed here); another object is given by that
  text alone.
\<close>

datatype cell =
    CNone
  | CFloat pyfloat string
  | CInt int
  | CBool bool
  | CStr string
  | CObj string

fun dec_nat :: "nat \<Rightarrow> string" where
  "dec_nat n =
     (if n < 10 then [''0123456789'' ! n]
      else dec_nat (n div 10) @ [''0123456789'' ! (n mod 10)])"

definition dec_int :: "int \<Rightarrow> string" where
  "dec_int i = (if i < 0 then CHR ''-'' # dec_nat (nat (- i)) else dec_nat (nat i))"

text \<open>\<open>str(x)\<close>\<close>

fun py_str :: "cell \<Rightarrow> string" where
  "py_str CNone = ''None''"
| "py_str (CFloat x rendered) = rendered"
| "py_str (CInt i) = dec_int i"
| "py_str (CBool b) = (if b then ''True'' else ''False'')"
| "py_str (CStr s) = s"
| "py_str (CObj rendered) = rendered"

text \<open>The truth value of a cell, as \<open>val or ""\<close> tests it. NaN is true.\<close>

fun truthy :: "cell \<Rightarrow> bool" where
  "truthy CNone = False"
| "truthy (CFloat x _) = (\<not> is_zero x)"
| "truthy (CInt i) = (i \<noteq> 0)"
| "truthy (CBool b) = b"
| "truthy (CStr s) = (s \<noteq> [])"
| "truthy (CObj _) = True"

section \<open>\<open>normalise_vat_code\<close>\<close>

text \<open>\<open>s = str(val or "").strip().lower()\<close>\<close>

definition code_text :: "cell \<Rightarrow> string" where
  "code_text val = lower (strip (py_str (if truthy val then val else CStr '''')))"

text \<open>
  The first stage: if \<open>s\<close> is not empty and the pattern matches in it, the first table key
  contained in the matched text decides. The stage falls through when there is none.
\<close>

definition by_pattern :: "string \<Rightarrow> string option" where
  "by_pattern s =
     (if s \<noteq> [] then
        (case rx_search VAT_CODE_REGEX s of
           Some block \<Rightarrow> first_hit NORMALISE_MAP (lower block)
         | None \<Rightarrow> None)
      else None)"

text \<open>The second stage: the first piece of \<open>s\<close> that is a key of the table.\<close>

definition by_tokens :: "string \<Rightarrow> string option" where
  "by_tokens s = token_hit NORMALISE_MAP (if s \<noteq> [] then re_split s else [])"

definition normalise_vat_code :: "cell \<Rightarrow> string \<Rightarrow> string" where
  "normalise_vat_code val description =
     (let s = code_text val
      in case by_pattern s of
           Some v \<Rightarrow> v
         | None \<Rightarrow>
             (case by_tokens s of
                Some v \<Rightarrow> v
              | None \<Rightarrow>
                  (case first_hit NORMALISE_MAP (lower description) of
                     Some v \<Rightarrow> v
                   | None \<Rightarrow> ''UNKNOWN'')))"

section \<open>\<open>_find_col\<close>\<close>

text \<open>
  Column labels are strings (so \<open>str(c)\<close> is \<open>c\<close>). \<open>dict_keys\<close> gives the keys of a dict
  filled from a list of keys: a key that is new goes to the end, one that is present keeps
  its place.
\<close>

definition dict_keys :: "'a list \<Rightarrow> 'a list" where
  "dict_keys xs = foldl (\<lambda>ks k. if k \<in> set ks then ks else ks @ [k]) [] xs"

text \<open>\<open>re.sub(r"\s+", " ", x)\<close>: every run of whitespace becomes one blank.\<close>

fun collapse_from :: "bool \<Rightarrow> string \<Rightarrow> string" where
  "collapse_from in_run [] = []"
| "collapse_from in_run (c # cs) =
     (if is_space c
      then (if in_run then collapse_from True cs else CHR '' '' # collapse_from True cs)
      else c # collapse_from False cs)"

definition norm_header :: "string \<Rightarrow> string" where
  "norm_header c = lower (strip (collapse_from False c))"

fun exact_scan :: "(string \<times> string) list \<Rightarrow> string list \<Rightarrow> string option" where
  "exact_scan cols [] = None"
| "exact_scan cols (want # keys) =
     (case find (\<lambda>(c, lc). lower want = lc) cols of
        Some (c, lc) \<Rightarrow> Some c
      | None \<Rightarrow> exact_scan cols keys)"

fun fuzzy_scan :: "string list \<Rightarrow> string list \<Rightarrow> string option" where
  "fuzzy_scan columns [] = None"
| "fuzzy_scan columns (want # keys) =
     (case find (\<lambda>c. py_in (lower want) (lower c)) columns of
        Some c \<Rightarrow> Some c
      | None \<Rightarrow> fuzzy_scan columns keys)"

definition find_col :: "string list \<Rightarrow> string list \<Rightarrow> string option" where
  "find_col columns keys =
     (let cols = map (\<lambda>c. (c, norm_header c)) (dict_keys columns)
      in case exact_scan cols keys of
           Some c \<Rightarrow> Some c
         | None \<Rightarrow> fuzzy_scan columns keys)"

text \<open>
  The resolver as the specification words it: the first header equal to a candidate, then
  the first header containing one, candidates in listed order and columns in order.
\<close>

definition exact_matches :: "string list \<Rightarrow> string list \<Rightarrow> string list" where
  "exact_matches columns keys =
     concat (map (\<lambda>want. filter (\<lambda>c. norm_header c = lower want) columns) keys)"

definition substring_matches :: "string list \<Rightarrow> string list \<Rightarrow> string list" where
  "substring_matches columns keys =
     concat (map (\<lambda>want. filter (\<lambda>c. py_in (lower want) (lower c)) columns) keys)"

definition spec_find_col :: "string list \<Rightarrow> string list \<Rightarrow> string option" where
  "spec_find_col columns keys =
     (case exact_matches columns keys of
        c # _ \<Rightarrow> Some c
      | [] \<Rightarrow> (case substring_matches columns keys of c # _ \<Rightarrow> Some c | [] \<Rightarrow> None))"

section \<open>\<open>_to_float\<close>\<close>

datatype exn = TypeError | ValueError | OverflowError

text \<open>
  \<open>float(s)\<close> on a string: blanks around it are dropped; then an optional sign, and either
  \<open>inf\<close>, \<open>infinity\<close> or \<open>nan\<close> in any case, or a decimal number with an optional fraction and
  an optional exponent, where single underscores may separate digits. The value is the
  nearest float.
\<close>

definition is_digit :: "char \<Rightarrow> bool" where
  "is_digit c = (c \<in> set ''0123456789'')"

definition digit_val :: "char \<Rightarrow> nat" where
  "digit_val c = (case map_of (zip ''0123456789'' [0, 1, 2, 3, 4, 5, 6, 7, 8, 9]) c of
                    Some d \<Rightarrow> d | None \<Rightarrow> 0)"

text \<open>The rest of a digit part after its first digit: \<open>(["_"] digit)*\<close>.\<close>

fun more_digits :: "string \<Rightarrow> string \<times> string" where
  "more_digits (c # cs) =
     (if is_digit c then (let (ds, rest) = more_digits cs in (c # ds, rest))
      else if c = CHR ''_'' then
        (case cs of
           d # cs' \<Rightarrow> if is_digit d then (let (ds, rest) = more_digits cs' in (d # ds, rest))
                      else ([], c # cs)
         | [] \<Rightarrow> ([], c # cs))
      else ([], c # cs))"
| "more_digits [] = ([], [])"

text \<open>A digit part at the start of the text, if there is one: its digits and the rest.\<close>

definition digit_part :: "string \<Rightarrow> string \<times> string" where
  "digit_part s =
     (case s of
        c # cs \<Rightarrow> if is_digit c then (let (ds, rest) = more_digits cs in (c # ds, rest))
                   else ([], s)
      | [] \<Rightarrow> ([], s))"

definition nat_of_digits :: "string \<Rightarrow> nat" where
  "nat_of_digits ds = foldl (\<lambda>n c. 10 * n + digit_val c) 0 ds"

definition split_sign :: "string \<Rightarrow> bool \<times> string" where
  "split_sign s =
     (case s of
        c # cs \<Rightarrow> if c = CHR ''-'' then (True, cs) else if c = CHR ''+'' then (False, cs)
                   else (False, s)
      | [] \<Rightarrow> (False, s))"

text \<open>The exponent part: absent, well-formed with its value, or malformed.\<close>

definition exponent_part :: "string \<Rightarrow> int option" where
  "exponent_part s =
     (case s of
        [] \<Rightarrow> Some 0
      | c # cs \<Rightarrow>
          if c = CHR ''e'' \<or> c = CHR ''E'' then
            (let (neg, t) = split_sign cs; (ds, rest) = digit_part t
             in if ds \<noteq> [] \<and> rest = []
                then Some (if neg then - int (nat_of_digits ds) else int (nat_of_digits ds))
                else None)
          else None)"

definition pow10 :: "int \<Rightarrow> rat" where
  "pow10 e = (if 0 \<le> e then 10 ^ nat e else 1 / 10 ^ nat (- e))"

definition decimal_value :: "string \<Rightarrow> rat option" where
  "decimal_value s =
     (let (ip, r1) = digit_part s;
          (fp, r2) = (case r1 of
                        c # cs \<Rightarrow> if c = CHR ''.'' then digit_part cs else ([], r1)
                      | [] \<Rightarrow> ([], r1))
      in if ip = [] \<and> fp = [] then None
         else (case exponent_part r2 of
                 None \<Rightarrow> None
               | Some e \<Rightarrow>
                   Some (of_nat (nat_of_digits (ip @ fp)) * pow10 (e - int (length fp)))))"

definition float_of_string :: "string \<Rightarrow> pyfloat option" where
  "float_of_string s =
     (let (neg, t) = split_sign (strip s); w = lower t
      in if w = ''inf'' \<or> w = ''infinity'' then Some (if neg then NInf else PInf)
         else if w = ''nan'' then Some NaN
         else (case decimal_value t of
                 None \<Rightarrow> None
               | Some q \<Rightarrow> Some (round_double (if neg then - q else q))))"

text \<open>\<open>float(x)\<close>\<close>

fun py_float :: "cell \<Rightarrow> exn + pyfloat" where
  "py_float CNone = Inl TypeError"
| "py_float (CFloat x _) = Inr x"
| "py_float (CInt i) =
     (case round_double (of_int i) of
        Fin q \<Rightarrow> Inr (Fin q)
      | _ \<Rightarrow> Inl OverflowError)"
| "py_float (CBool b) = Inr (Fin (if b then 1 else 0))"
| "py_float (CStr s) = (case float_of_string s of Some x \<Rightarrow> Inr x | None \<Rightarrow> Inl ValueError)"
| "py_float (CObj _) = Inl TypeError"

text \<open>\<open>pd.isna(x)\<close> on a cell.\<close>

fun isna :: "cell \<Rightarrow> bool" where
  "isna CNone = True"
| "isna (CFloat x _) = (x = NaN)"
| "isna _ = False"

text \<open>\<open>x.replace(",", "").strip()\<close>\<close>

definition clean_number_text :: "string \<Rightarrow> string" where
  "clean_number_text s = strip (filter (\<lambda>c. c \<noteq> CHR '','') s)"

text \<open>The body of the \<open>try\<close> in \<open>_to_float\<close>, then the function with its handler.\<close>

definition to_float_try :: "cell \<Rightarrow> exn + pyfloat" where
  "to_float_try x =
     (if isna x then Inr (Fin 0)
      else py_float (case x of CStr s \<Rightarrow> CStr (clean_number_text s) | _ \<Rightarrow> x))"

definition to_float :: "cell \<Rightarrow> pyfloat" where
  "to_float x = (case to_float_try x of Inr v \<Rightarrow> v | Inl _ \<Rightarrow> Fin 0)"

section \<open>\<open>detect_source_type\<close>\<close>

definition detect_source_type :: "string \<Rightarrow> string \<Rightarrow> string" where
  "detect_source_type sheet_name filename =
     (let probe = lower (sheet_name @ '' '' @ filename)
      in if list_ex (\<lambda>w. py_in w probe) [''sale'', ''ar'', ''output''] then ''sales''
         else if list_ex (\<lambda>w. py_in w probe) [''purchase'', ''ap'', ''input'', ''payable'']
         then ''purchases''
         else ''unknown'')"

section \<open>Lines and sheets\<close>

text \<open>The dataclass \<open>Line\<close>; its field \<open>show\<close> is \<open>show_id\<close> here.\<close>

record Line =
  show_id :: string
  sheet :: string
  date :: "string option"
  ref :: "string option"
  supplier :: "string option"
  description :: "string option"
  net :: pyfloat
  vat :: pyfloat
  gross :: pyfloat
  vat_code :: "string option"
  source_type :: string
  raw :: "(string \<times> cell) list"

text \<open>
  A sheet as pandas hands it over: the column labels and the rows, each row holding one cell
  per column. The labels are taken to be distinct strings, as the reader makes them.
\<close>

record dataframe =
  columns :: "string list"
  rows :: "cell list list"

text \<open>\<open>r.get(c)\<close>: the cell under the label, and \<open>None\<close> when the row has no such label
  (as for the key \<open>None\<close> of a column that did not resolve).\<close>

definition row_get :: "string list \<Rightarrow> cell list \<Rightarrow> string option \<Rightarrow> cell" where
  "row_get cols r c =
     (case c of
        None \<Rightarrow> CNone
      | Some label \<Rightarrow> (case map_of (zip cols r) label of Some v \<Rightarrow> v | None \<Rightarrow> CNone))"

definition date_candidates :: "string list" where
  "date_candidates = [''date'', ''txn date'', ''doc date'', ''invoice date'', ''posting date'']"

definition ref_candidates :: "string list" where
  "ref_candidates = [''invoice'', ''inv'', ''document'', ''doc no'', ''reference'', ''ref'']"

definition supplier_candidates :: "string list" where
  "supplier_candidates = [''supplier'', ''vendor'', ''customer'', ''name'', ''account name'']"

definition description_candidates :: "string list" where
  "description_candidates = [''description'', ''narrative'', ''memo'', ''details'']"

definition net_candidates :: "string list" where
  "net_candidates =
     [''net'', ''amount (excl)'', ''amount excl vat'', ''goods'', ''taxable amount'', ''base'',
      ''amount'']"

definition vat_candidates :: "string list" where
  "vat_candidates = [''vat'', ''tax'', ''vat amount'', ''tax amount'', ''vat amt'']"

definition gross_candidates :: "string list" where
  "gross_candidates = [''gross'', ''amount (incl)'', ''total'', ''amount incl vat'']"

definition vat_code_candidates :: "string list" where
  "vat_code_candidates =
     [''vat code'', ''tax code'', ''code'', ''t-code'', ''vat type'', ''rate'', ''vat rate'']"

text \<open>\<open>_find_col(df, keys) or None\<close>: an empty label counts as no column.\<close>

definition col_or_none :: "string option \<Rightarrow> string option" where
  "col_or_none c = (case c of Some label \<Rightarrow> if label = [] then None else Some label | None \<Rightarrow> None)"

record resolved =
  c_date :: "string option"
  c_ref :: "string option"
  c_supplier :: "string option"
  c_desc :: "string option"
  c_net :: "string option"
  c_vat :: "string option"
  c_gross :: "string option"
  c_code :: "string option"

definition resolve :: "string list \<Rightarrow> resolved" where
  "resolve cols =
     \<lparr>c_date = col_or_none (find_col cols date_candidates),
      c_ref = col_or_none (find_col cols ref_candidates),
      c_supplier = col_or_none (find_col cols supplier_candidates),
      c_desc = col_or_none (find_col cols description_candidates),
      c_net = col_or_none (find_col cols net_candidates),
      c_vat = col_or_none (find_col cols vat_candidates),
      c_gross = col_or_none (find_col cols gross_candidates),
      c_code = col_or_none (find_col cols vat_code_candidates)\<rparr>"

text \<open>The three amounts of a row, as the loop body computes them.\<close>

definition row_net :: "resolved \<Rightarrow> string list \<Rightarrow> cell list \<Rightarrow> pyfloat" where
  "row_net cs cols r = (if c_net cs \<noteq> None then to_float (row_get cols r (c_net cs)) else Fin 0)"

definition row_vat :: "resolved \<Rightarrow> string list \<Rightarrow> cell list \<Rightarrow> pyfloat" where
  "row_vat cs cols r = (if c_vat cs \<noteq> None then to_float (row_get cols r (c_vat cs)) else Fin 0)"

definition row_gross :: "resolved \<Rightarrow> string list \<Rightarrow> cell list \<Rightarrow> pyfloat" where
  "row_gross cs cols r =
     (if c_gross cs \<noteq> None then to_float (row_get cols r (c_gross cs))
      else fadd (row_net cs cols r) (row_vat cs cols r))"

text \<open>\<open>str(r.get(c)) if c else None\<close>\<close>

definition text_field :: "string list \<Rightarrow> cell list \<Rightarrow> string option \<Rightarrow> string option" where
  "text_field cols r c = (if c \<noteq> None then Some (py_str (row_get cols r c)) else None)"

text \<open>The body of the loop over the rows: the Line of a row, or nothing for a skipped row.\<close>

definition extract_row ::
  "string \<Rightarrow> string \<Rightarrow> string \<Rightarrow> resolved \<Rightarrow> string list \<Rightarrow> cell list \<Rightarrow> Line option" where
  "extract_row show_name sheet_name src_type cs cols r =
     (let n = row_net cs cols r; v = row_vat cs cols r; g = row_gross cs cols r
      in if is_zero n \<and> is_zero v \<and> is_zero g then None
         else
           (let vcode =
                  (if c_code cs \<noteq> None
                   then normalise_vat_code (row_get cols r (c_code cs))
                          (py_str (row_get cols r (c_desc cs)))
                   else normalise_vat_code (CStr '''') (py_str (row_get cols r (c_desc cs))))
            in Some \<lparr>show_id = show_name, sheet = sheet_name,
                      date = text_field cols r (c_date cs),
                      ref = text_field cols r (c_ref cs),
                      supplier = text_field cols r (c_supplier cs),
                      description = text_field cols r (c_desc cs),
                      net = n, vat = v, gross = g,
                      vat_code = Some vcode,
                      source_type = src_type,
                      raw = map (\<lambda>(k, x). (k, if isna x then CNone else x)) (zip cols r)\<rparr>))"

text \<open>One sheet: nothing for an empty sheet or one without any amount column.\<close>

definition parse_sheet :: "string \<Rightarrow> string \<Rightarrow> string \<Rightarrow> dataframe \<Rightarrow> Line list" where
  "parse_sheet show_name filename sheet_name df =
     (if rows df = [] \<or> columns df = [] then []
      else
        (let cs = resolve (columns df)
         in if c_net cs = None \<and> c_vat cs = None \<and> c_gross cs = None then []
            else
              List.map_filter
                (extract_row show_name sheet_name (detect_source_type sheet_name filename) cs
                   (columns df))
                (rows df)))"

text \<open>
  \<open>parse_excel\<close>: the Lines of all sheets, in order. A sheet that cannot be read (\<open>None\<close>)
  is passed over. The show name is the file name without its extension, taken as given.
\<close>

definition parse_excel ::
  "string \<Rightarrow> string \<Rightarrow> (string \<times> dataframe option) list \<Rightarrow> Line list" where
  "parse_excel show_name filename sheets =
     concat (map (\<lambda>(sheet_name, read).
                    (case read of
                       None \<Rightarrow> []
                     | Some df \<Rightarrow> parse_sheet show_name filename sheet_name df))
                 sheets)"

section \<open>\<open>assign_boxes\<close>\<close>

datatype box = Box1 | Box4 | Box6 | Box7 | Box8 | Box9

type_synonym boxes = "box \<Rightarrow> pyfloat"

definition init_acc :: boxes where
  "init_acc = (\<lambda>_. Fin 0)"

text \<open>\<open>acc[k] += x\<close>\<close>

definition add_to :: "box \<Rightarrow> pyfloat \<Rightarrow> boxes \<Rightarrow> boxes" where
  "add_to k x b = b(k := fadd (b k) x)"

text \<open>The conditions of the five rules.\<close>

definition sales_standard :: "Line \<Rightarrow> bool" where
  "sales_standard l = (source_type l = ''sales'' \<and> vat_code l = Some ''T20'')"

definition purchase_reclaim :: "Line \<Rightarrow> bool" where
  "purchase_reclaim l =
     (source_type l \<in> {''purchases'', ''unknown''}
      \<and> vat_code l \<in> {Some ''T20'', Some ''REDUCED''})"

definition sales_zero :: "Line \<Rightarrow> bool" where
  "sales_zero l = (source_type l = ''sales'' \<and> vat_code l \<in> {Some ''T0''})"

definition supplies_ni_eu :: "Line \<Rightarrow> bool" where
  "supplies_ni_eu l = (vat_code l \<in> {Some ''NI'', Some ''EU''} \<and> source_type l = ''sales'')"

definition acquisitions_ni_eu :: "Line \<Rightarrow> bool" where
  "acquisitions_ni_eu l =
     (vat_code l \<in> {Some ''NI'', Some ''EU''} \<and> source_type l \<noteq> ''sales'')"

text \<open>The body of the loop over the Lines, on the boxes of the Line's show.\<close>

definition apply_rules :: "Line \<Rightarrow> boxes \<Rightarrow> boxes" where
  "apply_rules l b =
     (let b1 = (if sales_standard l then add_to Box6 (net l) (add_to Box1 (vat l) b)
                else if purchase_reclaim l then add_to Box7 (net l) (add_to Box4 (vat l) b)
                else if sales_zero l then add_to Box6 (net l) b
                else b);
          b2 = (if supplies_ni_eu l then add_to Box8 (net l) b1 else b1)
      in if acquisitions_ni_eu l then add_to Box9 (net l) b2 else b2)"

record show_acc =
  boxes :: boxes
  lines :: "Line list"

text \<open>
  \<open>per_show\<close> is a dict, kept as its items in insertion order. \<open>touch\<close> is
  \<open>per_show.setdefault(ln.show, ...)\<close> followed by the update of the entry.
\<close>

fun touch ::
  "Line \<Rightarrow> (string \<times> show_acc) list \<Rightarrow> (string \<times> show_acc) list" where
  "touch l [] =
     [(show_id l, \<lparr>boxes = apply_rules l init_acc, lines = [l]\<rparr>)]"
| "touch l ((s, acc) # rest) =
     (if s = show_id l
      then (s, \<lparr>boxes = apply_rules l (boxes acc), lines = lines acc @ [l]\<rparr>) # rest
      else (s, acc) # touch l rest)"

definition aggregate :: "Line list \<Rightarrow> (string \<times> show_acc) list" where
  "aggregate lns = foldl (\<lambda>per_show l. touch l per_show) [] lns"

text \<open>\<open>for show, acc in per_show.items(): for k in consolidated: consolidated[k] += acc["boxes"][k]\<close>\<close>

definition consolidate :: "(string \<times> show_acc) list \<Rightarrow> boxes" where
  "consolidate per_show =
     foldl (\<lambda>consolidated (s, acc). (\<lambda>k. fadd (consolidated k) (boxes acc k))) init_acc per_show"

record totals =
  per_show :: "(string \<times> show_acc) list"
  consolidated :: boxes

definition assign_boxes :: "Line list \<Rightarrow> totals" where
  "assign_boxes lns =
     (let groups = aggregate lns
      in \<lparr>per_show = groups, consolidated = consolidate groups\<rparr>)"

section \<open>Amounts that add without rounding\<close>

text \<open>
  A float is on the grid of \<open>2^e\<close> when it is a finite multiple of \<open>2^e\<close>; its magnitude is its
  absolute value. The amounts of a list of Lines add exactly on the grid of \<open>2^e\<close> (with
  \<open>e\<close> from -1074, the exponent of the least positive float, to 971) when all net and vat
  amounts are on that grid and their magnitudes sum to less than \<open>2^(e+53)\<close>: then every sum
  of some of them is a float, and no addition is rounded. Whole amounts that sum to less
  than \<open>2^53\<close> are the case \<open>e = 0\<close>; 0.5 and 0.25 are on the grid of \<open>2^(-2)\<close>.
\<close>

definition grid :: "int \<Rightarrow> rat \<Rightarrow> bool" where
  "grid e q = (of_int \<lfloor>q / pow2 e\<rfloor> * pow2 e = q)"

definition on_grid :: "int \<Rightarrow> pyfloat \<Rightarrow> bool" where
  "on_grid e x = (case x of Fin q \<Rightarrow> grid e q | _ \<Rightarrow> False)"

definition magnitude :: "pyfloat \<Rightarrow> rat" where
  "magnitude x = (case x of Fin q \<Rightarrow> \<bar>q\<bar> | _ \<Rightarrow> 0)"

definition adds_exactly :: "int \<Rightarrow> Line list \<Rightarrow> bool" where
  "adds_exactly e lns =
     (- 1074 \<le> e \<and> e \<le> 971
      \<and> list_all (\<lambda>l. on_grid e (net l) \<and> on_grid e (vat l)) lns
      \<and> (\<Sum>l\<leftarrow>lns. magnitude (net l) + magnitude (vat l)) < 2 ^ 53 * pow2 e)"

text \<open>
  The rule table read box by box: what a Line adds to a box, if anything; the running
  total after the Line; and the exact value added.
\<close>

fun contribution :: "box \<Rightarrow> Line \<Rightarrow> pyfloat option" where
  "contribution Box1 l = (if sales_standard l then Some (vat l) else None)"
| "contribution Box4 l = (if purchase_reclaim l then Some (vat l) else None)"
| "contribution Box6 l = (if sales_standard l \<or> sales_zero l then Some (net l) else None)"
| "contribution Box7 l = (if purchase_reclaim l then Some (net l) else None)"
| "contribution Box8 l = (if supplies_ni_eu l then Some (net l) else None)"
| "contribution Box9 l = (if acquisitions_ni_eu l then Some (net l) else None)"

definition add_contribution :: "box \<Rightarrow> pyfloat \<Rightarrow> Line \<Rightarrow> pyfloat" where
  "add_contribution k a l = (case contribution k l of None \<Rightarrow> a | Some x \<Rightarrow> fadd a x)"

definition exact_contribution :: "box \<Rightarrow> Line \<Rightarrow> rat" where
  "exact_contribution k l = (case contribution k l of Some (Fin q) \<Rightarrow> q | _ \<Rightarrow> 0)"

text \<open>The accumulator of a show, computed from its Lines alone.\<close>

definition group_of :: "Line list \<Rightarrow> string \<Rightarrow> show_acc" where
  "group_of lns s =
     \<lparr>boxes = foldl (\<lambda>b l. apply_rules l b) init_acc (filter (\<lambda>l. show_id l = s) lns),
      lines = filter (\<lambda>l. show_id l = s) lns\<rparr>"

text \<open>\<open>x == y\<close> on floats: NaN equals nothing, not even itself.\<close>

definition py_eq :: "pyfloat \<Rightarrow> pyfloat \<Rightarrow> bool" where
  "py_eq x y = (x \<noteq> NaN \<and> y \<noteq> NaN \<and> x = y)"

section \<open>Example data\<close>

definition ledger_line :: "string \<Rightarrow> string \<Rightarrow> string \<Rightarrow> pyfloat \<Rightarrow> pyfloat \<Rightarrow> Line" where
  "ledger_line show_name src_type code n v =
     \<lparr>show_id = show_name, sheet = ''Sheet1'', date = None, ref = None, supplier = None,
      description = None, net = n, vat = v, gross = fadd n v, vat_code = Some code,
      source_type = src_type, raw = []\<rparr>"

definition example_sheet :: dataframe where
  "example_sheet =
     \<lparr>columns = [''Net'', ''VAT''],
      rows = [[CInt 0, CStr ''''], [CFloat (Fin 100) ''100.0'', CFloat (Fin 20) ''20.0'']]\<rparr>"

section \<open>Substring search and the token table\<close>

lemma starts_with_iff: "starts_with k s \<longleftrightarrow> (\<exists>ss. s = k @ ss)"
  by (induction k s rule: starts_with.induct) auto

lemma py_in_iff: "py_in k s \<longleftrightarrow> (\<exists>ps ss. s = ps @ k @ ss)"
proof (induction s)
  case Nil
  then show ?case by auto
next
  case (Cons c cs)
  show ?case
  proof
    assume "py_in k (c # cs)"
    then consider "starts_with k (c # cs)" | "py_in k cs" by auto
    then show "\<exists>ps ss. c # cs = ps @ k @ ss"
    proof cases
      case 1
      then obtain ss where "c # cs = k @ ss" by (auto simp: starts_with_iff)
      then have "c # cs = [] @ k @ ss" by simp
      then show ?thesis by blast
    next
      case 2
      then obtain ps ss where "cs = ps @ k @ ss" using Cons.IH by auto
      then have "c # cs = (c # ps) @ k @ ss" by simp
      then show ?thesis by blast
    qed
  next
    assume "\<exists>ps ss. c # cs = ps @ k @ ss"
    then obtain ps ss where e: "c # cs = ps @ k @ ss" by auto
    show "py_in k (c # cs)"
    proof (cases ps)
      case Nil
      then have "starts_with k (c # cs)" using e by (auto simp: starts_with_iff)
      then show ?thesis by simp
    next
      case (Cons p ps')
      then have "cs = ps' @ k @ ss" using e by simp
      then have "py_in k cs" using Cons.IH by blast
      then show ?thesis by simp
    qed
  qed
qed

lemma first_hit_first:
  "\<lbrakk>\<forall>(k', v') \<in> set pre. \<not> py_in k' txt; py_in k txt\<rbrakk> \<Longrightarrow> first_hit (pre @ (k, v) # post) txt = Some v"
  by (induction pre) auto

text \<open>
  When neither the pattern stage nor the token stage resolves the code token,
  \<open>normalise_vat_code\<close> lower-cases the fallback description and returns the tag of the first
  key of the token table, in table order, that occurs in it as a substring.
\<close>

lemma description_scan_rule:
  assumes "by_pattern (code_text val) = None" and "by_tokens (code_text val) = None"
    and "NORMALISE_MAP = pre @ (k, v) # post"
    and "py_in k (lower d)"
    and "\<forall>(k', v') \<in> set pre. \<not> py_in k' (lower d)"
  shows "normalise_vat_code val d = v"
  using assms first_hit_first [of pre "lower d" k v post]
  by (simp add: normalise_vat_code_def)

lemma py_in_part: "py_in (a @ k @ b) t \<Longrightarrow> py_in k t"
proof -
  assume "py_in (a @ k @ b) t"
  then obtain ps ss where "t = ps @ (a @ k @ b) @ ss" by (auto simp: py_in_iff)
  then have "t = (ps @ a) @ k @ (b @ ss)" by simp
  then show "py_in k t" unfolding py_in_iff by blast
qed

lemma e_inside:
  "py_in ''eu'' t \<Longrightarrow> py_in ''e'' t"
  "py_in ''ec'' t \<Longrightarrow> py_in ''e'' t"
  "py_in ''eec'' t \<Longrightarrow> py_in ''e'' t"
  using py_in_part [of "[]" "''e''" "''u''" t] py_in_part [of "[]" "''e''" "''c''" t]
    py_in_part [of "[]" "''e''" "''ec''" t]
  by simp_all

lemma table_scan_never_EU: "first_hit NORMALISE_MAP t \<noteq> Some ''EU''"
  using e_inside [of t] by (simp add: NORMALISE_MAP_def)

lemma empty_token_text: "code_text (CStr '''') = ''''"
  by (simp add: code_text_def lower_def strip_def)

lemma example_2_value: "normalise_vat_code (CStr '''') ''Sale to EU customer'' = ''EXEMPT''"
  by code_simp

text \<open>
  C1. The empty code token with the description "Sale to EU customer" gives \<open>EXEMPT\<close>, where
  Example 2 of the specification gives \<open>EU\<close>. No description gives \<open>EU\<close>: the scan of the
  table over a text never returns it, because the keys \<open>eu\<close>, \<open>ec\<close> and \<open>eec\<close>, which the
  table enters for \<open>EU\<close>, each contain the key \<open>e\<close>, which stands before them with the tag
  \<open>EXEMPT\<close>.
\<close>

theorem description_scan_never_gives_EU:
  "normalise_vat_code (CStr '''') ''Sale to EU customer'' = ''EXEMPT''
   \<and> normalise_vat_code (CStr '''') d \<noteq> ''EU''
   \<and> first_hit NORMALISE_MAP (lower d) \<noteq> Some ''EU''"
proof -
  have a: "by_pattern (code_text (CStr '''')) = None" "by_tokens (code_text (CStr '''')) = None"
    by (simp_all add: empty_token_text by_pattern_def by_tokens_def)
  have b: "first_hit NORMALISE_MAP (lower d) \<noteq> Some ''EU''" by (rule table_scan_never_EU)
  have "normalise_vat_code (CStr '''') d \<noteq> ''EU''"
    using a b by (auto simp: normalise_vat_code_def split: option.splits)
  then show ?thesis using b example_2_value by blast
qed

text \<open>
  C2. Normalising a canonical tag with an empty description: \<open>T20\<close>, \<open>T0\<close>, \<open>EXEMPT\<close>,
  \<open>OOS\<close>, \<open>REDUCED\<close> and \<open>NI\<close> come back unchanged, but \<open>EU\<close> comes back as \<open>EXEMPT\<close>: the
  pattern matches \<open>eu\<close> by its alternative \<open>\bEU\b\<close>, and the scan of the table over the
  matched text meets the key \<open>e\<close> before the key \<open>eu\<close>.
\<close>

theorem canonical_tags_normalised:
  "normalise_vat_code (CStr ''EU'') '''' = ''EXEMPT''
   \<and> normalise_vat_code (CStr ''T20'') '''' = ''T20''
   \<and> normalise_vat_code (CStr ''T0'') '''' = ''T0''
   \<and> normalise_vat_code (CStr ''EXEMPT'') '''' = ''EXEMPT''
   \<and> normalise_vat_code (CStr ''OOS'') '''' = ''OOS''
   \<and> normalise_vat_code (CStr ''REDUCED'') '''' = ''REDUCED''
   \<and> normalise_vat_code (CStr ''NI'') '''' = ''NI''"
  by code_simp

section \<open>Rounding\<close>

lemma bit_length_le: "m < 2 ^ k \<Longrightarrow> bit_length m \<le> k"
proof (induction k arbitrary: m)
  case 0
  then show ?case by simp
next
  case (Suc k)
  show ?case
  proof (cases "m = 0")
    case True
    then show ?thesis by simp
  next
    case False
    have "m div 2 < 2 ^ k" using Suc.prems by auto
    then have "bit_length (m div 2) \<le> k" by (rule Suc.IH)
    then show ?thesis using False by (subst bit_length.simps) simp
  qed
qed

lemma bit_length_pos: "0 < m \<Longrightarrow> 0 < bit_length m"
  by (subst bit_length.simps) simp

lemma bit_length_one: "bit_length (Suc 0) = Suc 0"
  by (simp add: bit_length.simps)

lemma round_half_even_of_int: "round_half_even (of_int k) = k"
  by (simp add: round_half_even_def)

lemma exponent_of_whole:
  assumes "0 < n" and "n < 2 ^ 53"
  shows "exponent_of (of_int n) \<le> 52 \<and> - 1 \<le> exponent_of (of_int n)"
proof -
  have "nat n < 2 ^ 53" using assms by (simp add: nat_less_iff)
  then have a: "bit_length (nat n) \<le> 53" by (rule bit_length_le)
  have b: "0 < bit_length (nat n)" using assms by (intro bit_length_pos) simp
  have q: "quotient_of (of_int n) = (n, 1)" by (simp add: quotient_of_int)
  show ?thesis using a b
    by (simp add: exponent_of_def q bit_length_one Let_def)
qed

lemma round_double_whole:
  assumes "\<bar>n\<bar> < 2 ^ 53"
  shows "round_double (of_int n) = Fin (of_int n)"
proof (cases "n = 0")
  case True
  then show ?thesis by (simp add: round_double_def)
next
  case False
  define e where "e = exponent_of \<bar>of_int n\<bar>"
  have p: "0 < \<bar>n\<bar>" using False by simp
  have e: "e \<le> 52" "- 1 \<le> e" using exponent_of_whole [OF p assms] by (simp_all add: e_def)
  have m: "max e (- 1022) = e" using e by simp
  have u: "pow2 (e - 52) = 1 / 2 ^ nat (52 - e)"
    using e by (auto simp: pow2_def)
  have s: "(of_int n :: rat) / pow2 (e - 52) = of_int (n * 2 ^ nat (52 - e))"
    by (simp add: u)
  have r: "of_int (round_half_even (of_int n / pow2 (e - 52))) * pow2 (e - 52) = (of_int n :: rat)"
    unfolding s round_half_even_of_int by (simp add: u)
  have "\<bar>of_int n :: rat\<bar> = of_int \<bar>n\<bar>" by simp
  also have "\<dots> < 2 ^ 53"
    using assms by (metis of_int_less_numeral_power_cancel_iff)
  also have "(2::rat) ^ 53 < 2 ^ 1024" by simp
  finally have small: "\<not> (2::rat) ^ 1024 \<le> \<bar>of_int n\<bar>" by simp
  have nz: "(of_int n :: rat) \<noteq> 0" using False by simp
  have "round_double (of_int n) =
          (if 2 ^ 1024 \<le> \<bar>of_int n :: rat\<bar> then (if (0::rat) < of_int n then PInf else NInf)
           else Fin (of_int n))"
    unfolding round_double_def Let_def e_def [symmetric] m r using nz by (simp only: if_False)
  then show ?thesis using small by (simp only: if_False)
qed

lemma fadd_whole:
  assumes "\<bar>a + b\<bar> < 2 ^ 53"
  shows "fadd (Fin (of_int a)) (Fin (of_int b)) = Fin (of_int (a + b))"
  using round_double_whole [OF assms] by simp

text \<open>The rounding of the sums of 0.1, 0.2 and 0.3, computed.\<close>

lemma floor_numeral_div: "\<lfloor>(numeral a :: rat) / numeral b\<rfloor> = numeral a div numeral b"
  using floor_divide_of_int_eq [of "numeral a" "numeral b", where ?'a = rat] by simp

lemma quotient_of_coprime:
  assumes "0 < b" and "coprime a b"
  shows "quotient_of (of_int a / of_int b) = (a, b)"
  using assms by (simp add: Fract_of_int_quotient [symmetric] quotient_of_Fract normalize_stable)

lemma coprime_odd_pow2: "odd (a::int) \<Longrightarrow> coprime a (2 ^ k)"
  by simp

lemma coprime_3_10: "coprime (3::int) 10"
proof -
  have "coprime (3::int) (10 mod 3)" by simp
  then show ?thesis by (simp only: coprime_mod_right_iff [of 3 10])
qed

lemma quotient_examples:
  "quotient_of (1 / 10) = (1, 10)"
  "quotient_of (1 / 5) = (1, 5)"
  "quotient_of (3 / 10) = (3, 10)"
  "quotient_of (3602879701896397 / 36028797018963968) = (3602879701896397, 36028797018963968)"
  "quotient_of (10808639105689191 / 36028797018963968) = (10808639105689191, 36028797018963968)"
  "quotient_of (10808639105689191 / 18014398509481984) = (10808639105689191, 18014398509481984)"
  "quotient_of (1351079888211149 / 2251799813685248) = (1351079888211149, 2251799813685248)"
  "quotient_of (5404319552844595 / 18014398509481984) = (5404319552844595, 18014398509481984)"
  "quotient_of (1 / 2) = (1, 2)"
  "quotient_of (21617278211378381 / 36028797018963968) = (21617278211378381, 36028797018963968)"
  "quotient_of (5404319552844595 / 9007199254740992) = (5404319552844595, 9007199254740992)"
proof -
  show "quotient_of (1 / 10) = (1, 10)"
    using quotient_of_coprime [of 10 1] by simp
  show "quotient_of (1 / 5) = (1, 5)"
    using quotient_of_coprime [of 5 1] by simp
  show "quotient_of (3 / 10) = (3, 10)"
    using quotient_of_coprime [of 10 3] coprime_3_10 by simp
  have "coprime (3602879701896397::int) 36028797018963968" using coprime_odd_pow2 [of 3602879701896397 55] by simp
  then show "quotient_of (3602879701896397 / 36028797018963968) = (3602879701896397, 36028797018963968)"
    using quotient_of_coprime [of 36028797018963968 3602879701896397] by simp
  have "coprime (10808639105689191::int) 36028797018963968" using coprime_odd_pow2 [of 10808639105689191 55] by simp
  then show "quotient_of (10808639105689191 / 36028797018963968) = (10808639105689191, 36028797018963968)"
    using quotient_of_coprime [of 36028797018963968 10808639105689191] by simp
  have "coprime (10808639105689191::int) 18014398509481984" using coprime_odd_pow2 [of 10808639105689191 54] by simp
  then show "quotient_of (10808639105689191 / 18014398509481984) = (10808639105689191, 18014398509481984)"
    using quotient_of_coprime [of 18014398509481984 10808639105689191] by simp
  have "coprime (1351079888211149::int) 2251799813685248" using coprime_odd_pow2 [of 1351079888211149 51] by simp
  then show "quotient_of (1351079888211149 / 2251799813685248) = (1351079888211149, 2251799813685248)"
    using quotient_of_coprime [of 2251799813685248 1351079888211149] by simp
  have "coprime (5404319552844595::int) 18014398509481984" using coprime_odd_pow2 [of 5404319552844595 54] by simp
  then show "quotient_of (5404319552844595 / 18014398509481984) = (5404319552844595, 18014398509481984)"
    using quotient_of_coprime [of 18014398509481984 5404319552844595] by simp
  show "quotient_of (1 / 2) = (1, 2)"
    using quotient_of_coprime [of 2 1] by simp
  have "coprime (21617278211378381::int) 36028797018963968" using coprime_odd_pow2 [of 21617278211378381 55] by simp
  then show "quotient_of (21617278211378381 / 36028797018963968) = (21617278211378381, 36028797018963968)"
    using quotient_of_coprime [of 36028797018963968 21617278211378381] by simp
  have "coprime (5404319552844595::int) 9007199254740992" using coprime_odd_pow2 [of 5404319552844595 53] by simp
  then show "quotient_of (5404319552844595 / 9007199254740992) = (5404319552844595, 9007199254740992)"
    using quotient_of_coprime [of 9007199254740992 5404319552844595] by simp
qed

lemma bit_length_examples:
  "bit_length 1 = 1"
  "bit_length 2 = 2"
  "bit_length 3 = 2"
  "bit_length 5 = 3"
  "bit_length 10 = 4"
  "bit_length 1351079888211149 = 51"
  "bit_length 2251799813685248 = 52"
  "bit_length 3602879701896397 = 52"
  "bit_length 5404319552844595 = 53"
  "bit_length 9007199254740992 = 54"
  "bit_length 10808639105689191 = 54"
  "bit_length 18014398509481984 = 55"
  "bit_length 21617278211378381 = 55"
  "bit_length 36028797018963968 = 56"
  by (simp_all add: bit_length.simps)

lemma round_double_fractions:
  "round_double (1 / 10) = Fin (3602879701896397 / 36028797018963968)"
  "round_double (1 / 5) = Fin (3602879701896397 / 18014398509481984)"
  "round_double (3 / 10) = Fin (5404319552844595 / 18014398509481984)"
  "round_double (3602879701896397 / 36028797018963968) = Fin (3602879701896397 / 36028797018963968)"
  "round_double (10808639105689191 / 36028797018963968) = Fin (1351079888211149 / 4503599627370496)"
  "round_double (10808639105689191 / 18014398509481984) = Fin (1351079888211149 / 2251799813685248)"
  "round_double (1351079888211149 / 2251799813685248) = Fin (1351079888211149 / 2251799813685248)"
  "round_double (5404319552844595 / 18014398509481984) = Fin (5404319552844595 / 18014398509481984)"
  "round_double (1 / 2) = Fin (1 / 2)"
  "round_double (21617278211378381 / 36028797018963968) = Fin (5404319552844595 / 9007199254740992)"
  "round_double (5404319552844595 / 9007199254740992) = Fin (5404319552844595 / 9007199254740992)"
  by (simp_all add: round_double_def exponent_of_def quotient_examples bit_length_examples
        pow2_def round_half_even_def floor_numeral_div Let_def)

section \<open>The column resolver\<close>

lemma dict_keys_snoc:
  "dict_keys (xs @ [x]) = (if x \<in> set (dict_keys xs) then dict_keys xs else dict_keys xs @ [x])"
  by (simp add: dict_keys_def)

lemma dict_keys_Nil: "dict_keys [] = []"
  by (simp add: dict_keys_def)

lemma set_dict_keys: "set (dict_keys xs) = set xs"
  by (induction xs rule: rev_induct) (auto simp: dict_keys_snoc dict_keys_Nil)

lemma distinct_dict_keys: "distinct (dict_keys xs)"
  by (induction xs rule: rev_induct) (auto simp: dict_keys_snoc dict_keys_Nil)

lemma find_append:
  "find P (xs @ ys) = (case find P xs of None \<Rightarrow> find P ys | Some x \<Rightarrow> Some x)"
  by (induction xs) auto

lemma first_of_append:
  "(case xs @ ys of [] \<Rightarrow> None | c # _ \<Rightarrow> Some c)
   = (case xs of [] \<Rightarrow> (case ys of [] \<Rightarrow> None | c # _ \<Rightarrow> Some c) | c # _ \<Rightarrow> Some c)"
  by (cases xs) auto

lemma find_dict_keys: "find P (dict_keys xs) = find P xs"
proof (induction xs rule: rev_induct)
  case Nil
  then show ?case by (simp add: dict_keys_Nil)
next
  case (snoc x xs)
  show ?case
  proof (cases "find P xs")
    case None
    then have "\<not> (\<exists>y \<in> set xs. P y)" by (simp add: find_None_iff)
    then have "x \<in> set xs \<Longrightarrow> \<not> P x" by blast
    then show ?thesis using None snoc.IH
      by (auto simp: dict_keys_snoc find_append set_dict_keys)
  next
    case (Some y)
    then show ?thesis using snoc.IH by (simp add: dict_keys_snoc find_append)
  qed
qed

lemma find_first_of_filter:
  "find P xs = (case filter P xs of [] \<Rightarrow> None | x # _ \<Rightarrow> Some x)"
  by (induction xs) auto

lemma find_keyed:
  "find (\<lambda>(c, lc). Q lc) (map (\<lambda>c. (c, f c)) ks)
   = map_option (\<lambda>c. (c, f c)) (find (\<lambda>c. Q (f c)) ks)"
  by (induction ks) auto

lemma exact_scan_first:
  "exact_scan (map (\<lambda>c. (c, norm_header c)) (dict_keys cols)) keys
   = (case exact_matches cols keys of [] \<Rightarrow> None | c # _ \<Rightarrow> Some c)"
proof (induction keys)
  case Nil
  then show ?case by (simp add: exact_matches_def)
next
  case (Cons want keys)
  have f: "find (\<lambda>(c, lc). lower want = lc) (map (\<lambda>c. (c, norm_header c)) (dict_keys cols))
           = map_option (\<lambda>c. (c, norm_header c)) (find (\<lambda>c. lower want = norm_header c) cols)"
    by (simp add: find_keyed find_dict_keys)
  have g: "filter (\<lambda>c. lower want = norm_header c) cols
           = filter (\<lambda>c. norm_header c = lower want) cols"
    by (intro filter_cong) auto
  have h: "exact_matches cols (want # keys)
           = filter (\<lambda>c. norm_header c = lower want) cols @ exact_matches cols keys"
    by (simp add: exact_matches_def)
  have fnd: "find (\<lambda>(c, lc). lower want = lc) (map (\<lambda>c. (c, norm_header c)) (dict_keys cols))
           = (case filter (\<lambda>c. norm_header c = lower want) cols of
                [] \<Rightarrow> None | c # _ \<Rightarrow> Some (c, norm_header c))"
    by (subst f) (simp add: find_first_of_filter g split: list.splits)
  show ?case
    unfolding h first_of_append exact_scan.simps fnd
    using Cons.IH
    by (cases "filter (\<lambda>c. norm_header c = lower want) cols") simp_all
qed

lemma fuzzy_scan_first:
  "fuzzy_scan cols keys
   = (case substring_matches cols keys of [] \<Rightarrow> None | c # _ \<Rightarrow> Some c)"
proof (induction keys)
  case Nil
  then show ?case by (simp add: substring_matches_def)
next
  case (Cons want keys)
  have h: "substring_matches cols (want # keys)
           = filter (\<lambda>c. py_in (lower want) (lower c)) cols @ substring_matches cols keys"
    by (simp add: substring_matches_def)
  show ?case
    unfolding h first_of_append
    using Cons.IH
    by (cases "filter (\<lambda>c. py_in (lower want) (lower c)) cols")
       (simp_all add: find_first_of_filter)
qed

lemma exact_matches_nonempty:
  "exact_matches cols keys \<noteq> []
   \<longleftrightarrow> (\<exists>want \<in> set keys. \<exists>c \<in> set cols. norm_header c = lower want)"
  by (auto simp: exact_matches_def filter_empty_conv)

lemma exact_matches_member:
  "c \<in> set (exact_matches cols keys)
   \<longleftrightarrow> c \<in> set cols \<and> (\<exists>want \<in> set keys. norm_header c = lower want)"
  by (auto simp: exact_matches_def)

text \<open>
  C9. \<open>_find_col\<close> returns what the specification describes: the first header whose
  text, with runs of whitespace collapsed, trimmed and lower-cased, equals a lower-cased
  candidate, the candidates taken in listed order and the columns in order; only if there
  is none, the first header whose lower-cased text contains a lower-cased candidate, in
  the same order; and nothing if there is none either. So whenever some header equals some
  candidate, the result is such a header, whatever contains a candidate before it.
\<close>

theorem find_col_precedence:
  "find_col cols keys = spec_find_col cols keys
   \<and> ((\<exists>want \<in> set keys. \<exists>c \<in> set cols. norm_header c = lower want)
        \<longrightarrow> (\<exists>c \<in> set cols. \<exists>want \<in> set keys.
               find_col cols keys = Some c \<and> norm_header c = lower want))
   \<and> ((\<forall>want \<in> set keys. norm_header want = lower want)
        \<longrightarrow> exact_matches cols keys
            = concat (map (\<lambda>want. filter (\<lambda>c. norm_header c = norm_header want) cols) keys))"
proof -
  have eq: "find_col cols keys = spec_find_col cols keys"
    by (simp add: find_col_def spec_find_col_def exact_scan_first fuzzy_scan_first Let_def
          split: list.splits)
  have wins: "(\<exists>want \<in> set keys. \<exists>c \<in> set cols. norm_header c = lower want)
        \<longrightarrow> (\<exists>c \<in> set cols. \<exists>want \<in> set keys.
               find_col cols keys = Some c \<and> norm_header c = lower want)"
  proof
    assume "\<exists>want \<in> set keys. \<exists>c \<in> set cols. norm_header c = lower want"
    then have "exact_matches cols keys \<noteq> []" by (simp add: exact_matches_nonempty)
    then obtain c rest where m: "exact_matches cols keys = c # rest"
      by (cases "exact_matches cols keys") auto
    then have "c \<in> set (exact_matches cols keys)" by simp
    then have "c \<in> set cols" "\<exists>want \<in> set keys. norm_header c = lower want"
      by (simp_all add: exact_matches_member)
    moreover have "find_col cols keys = Some c" by (simp add: eq spec_find_col_def m)
    ultimately show "\<exists>c \<in> set cols. \<exists>want \<in> set keys.
               find_col cols keys = Some c \<and> norm_header c = lower want"
      by blast
  qed
  have sym: "(\<forall>want \<in> set keys. norm_header want = lower want)
        \<longrightarrow> exact_matches cols keys
            = concat (map (\<lambda>want. filter (\<lambda>c. norm_header c = norm_header want) cols) keys)"
    by (auto simp: exact_matches_def intro!: arg_cong [where f = concat])
  show ?thesis using eq wins sym by blast
qed

text \<open>
  An exact match in the second column wins over a substring match in the first; and the
  candidates for the net column, as all candidates of the program, are lower-case with
  single blanks, so for them the comparison is the same on both sides.
\<close>

theorem find_col_precedence_witness:
  "norm_header ''Net'' = lower ''net''
   \<and> py_in (lower ''net'') (lower ''Net Amount'')
   \<and> find_col [''Net Amount'', ''Net''] [''net''] = Some ''Net''
   \<and> list_all (\<lambda>want. norm_header want = lower want) net_candidates
   \<and> exact_matches [''Net Amount'', ''Net''] net_candidates = [''Net'']"
proof -
  have a: "norm_header ''Net'' = lower ''net''" by code_simp
  have b: "py_in (lower ''net'') (lower ''Net Amount'')" by code_simp
  have c: "spec_find_col [''Net Amount'', ''Net''] [''net''] = Some ''Net''" by code_simp
  have d: "list_all (\<lambda>want. norm_header want = lower want) net_candidates" by code_simp
  have e: "exact_matches [''Net Amount'', ''Net''] net_candidates = [''Net'']" by code_simp
  have "find_col [''Net Amount'', ''Net''] [''net''] = spec_find_col [''Net Amount'', ''Net''] [''net'']"
    using find_col_precedence [of "[''Net Amount'', ''Net'']" "[''net'']"] by blast
  then show ?thesis using a b c d e by simp
qed

section \<open>Value coercion\<close>

text \<open>
  C8. \<open>_to_float\<close> gives a float for every cell and never raises: the value of the body
  of its \<open>try\<close>, or 0.0 when the body raises. \<open>None\<close> and NaN give 0.0; a string has its
  commas removed and is trimmed before \<open>float()\<close> parses it, and gives 0.0 when that fails;
  an object that is no number gives 0.0; and \<open>"1,234.56"\<close> gives the float nearest to
  1234.56, which is what the literal \<open>1234.56\<close> denotes. (Texts that \<open>float()\<close> accepts
  include \<open>inf\<close> and \<open>nan\<close>: for them the float returned is an infinity or NaN.)
\<close>

theorem to_float_total:
  "(to_float_try x = Inr (to_float x) \<or> ((\<exists>e. to_float_try x = Inl e) \<and> to_float x = Fin 0))
   \<and> to_float CNone = Fin 0
   \<and> to_float (CFloat NaN rendered) = Fin 0
   \<and> to_float (CObj rendered) = Fin 0
   \<and> to_float (CStr s)
       = (case float_of_string (strip (filter (\<lambda>c. c \<noteq> CHR '','') s)) of
            Some v \<Rightarrow> v | None \<Rightarrow> Fin 0)
   \<and> to_float (CStr ''1,234.56'') = round_double 1234.56"
proof -
  have a: "to_float_try x = Inr (to_float x) \<or> ((\<exists>e. to_float_try x = Inl e) \<and> to_float x = Fin 0)"
    by (cases "to_float_try x") (simp_all add: to_float_def)
  have b: "to_float CNone = Fin 0" "to_float (CFloat NaN rendered) = Fin 0"
    "to_float (CObj rendered) = Fin 0"
    by (simp_all add: to_float_def to_float_try_def)
  have c: "to_float (CStr s)
       = (case float_of_string (strip (filter (\<lambda>c. c \<noteq> CHR '','') s)) of
            Some v \<Rightarrow> v | None \<Rightarrow> Fin 0)"
    by (simp add: to_float_def to_float_try_def clean_number_text_def split: option.splits)
  have "float_of_string (clean_number_text ''1,234.56'') = Some (round_double 1234.56)"
    by (simp add: clean_number_text_def float_of_string_def strip_def is_space_def
          split_sign_def lower_def lower_char_def decimal_value_def digit_part_def is_digit_def
          exponent_part_def nat_of_digits_def digit_val_def pow10_def)
  then have d: "to_float (CStr ''1,234.56'') = round_double 1234.56"
    by (simp add: to_float_def to_float_try_def)
  show ?thesis using a b c d by blast
qed

section \<open>The record extractor\<close>

lemma extract_row_Some:
  assumes "extract_row sh sn st cs cols r = Some l"
  shows "net l = row_net cs cols r \<and> vat l = row_vat cs cols r \<and> gross l = row_gross cs cols r
         \<and> \<not> (is_zero (net l) \<and> is_zero (vat l) \<and> is_zero (gross l))
         \<and> vat_code l = Some (if c_code cs \<noteq> None
               then normalise_vat_code (row_get cols r (c_code cs)) (py_str (row_get cols r (c_desc cs)))
               else normalise_vat_code (CStr '''') (py_str (row_get cols r (c_desc cs))))"
  using assms by (auto simp: extract_row_def Let_def split: if_splits)

lemma parse_sheet_member:
  assumes "l \<in> set (parse_sheet sh fn sn df)"
  shows "\<exists>r \<in> set (rows df).
           extract_row sh sn (detect_source_type sn fn) (resolve (columns df)) (columns df) r = Some l"
  using assms
  by (auto simp: parse_sheet_def Let_def map_filter_def split: if_splits)

lemma parse_excel_member:
  assumes "l \<in> set (parse_excel sh fn sheets)"
  shows "\<exists>sn df. (sn, Some df) \<in> set sheets \<and> l \<in> set (parse_sheet sh fn sn df)"
  using assms by (auto simp: parse_excel_def split: option.splits)

lemma example_resolved:
  "resolve [''Net'', ''VAT'']
   = \<lparr>c_date = None, c_ref = None, c_supplier = None, c_desc = None, c_net = Some ''Net'',
      c_vat = Some ''VAT'', c_gross = None, c_code = None\<rparr>"
  by code_simp

lemma round_double_zero: "round_double 0 = Fin 0"
  by (simp add: round_double_def)

lemma empty_text_is_no_float: "float_of_string (clean_number_text '''') = None"
  by (simp add: clean_number_text_def float_of_string_def strip_def split_sign_def lower_def
        decimal_value_def digit_part_def)

lemma example_zero_row:
  "row_net (resolve [''Net'', ''VAT'']) [''Net'', ''VAT''] [CInt 0, CStr ''''] = Fin 0"
  "row_vat (resolve [''Net'', ''VAT'']) [''Net'', ''VAT''] [CInt 0, CStr ''''] = Fin 0"
  "row_gross (resolve [''Net'', ''VAT'']) [''Net'', ''VAT''] [CInt 0, CStr ''''] = Fin 0"
  by (simp_all add: example_resolved row_net_def row_vat_def row_gross_def row_get_def
        to_float_def to_float_try_def round_double_zero empty_text_is_no_float)

lemma example_lines:
  "parse_sheet ''ledger'' ''ledger.xlsx'' ''Sales'' example_sheet
   = [\<lparr>show_id = ''ledger'', sheet = ''Sales'', date = None, ref = None, supplier = None,
        description = None, net = Fin 100, vat = Fin 20, gross = fadd (Fin 100) (Fin 20),
        vat_code = Some (normalise_vat_code (CStr '''') ''None''),
        source_type = detect_source_type ''Sales'' ''ledger.xlsx'',
        raw = [(''Net'', CFloat (Fin 100) ''100.0''), (''VAT'', CFloat (Fin 20) ''20.0'')]\<rparr>]"
  using example_zero_row
  by (simp add: parse_sheet_def example_sheet_def example_resolved extract_row_def
        row_net_def row_vat_def row_gross_def row_get_def to_float_def to_float_try_def
        text_field_def is_zero_def Let_def del: fadd.simps)

text \<open>
  C6. A row whose three coerced amounts are all zero gives no Line, and no Line that
  \<open>parse_excel\<close> returns has all three amounts zero.
\<close>

theorem zero_rows_give_no_line:
  "(is_zero (row_net cs cols r) \<and> is_zero (row_vat cs cols r) \<and> is_zero (row_gross cs cols r)
      \<longrightarrow> extract_row sh sn st cs cols r = None)
   \<and> (\<forall>l \<in> set (parse_excel sh fn sheets).
         \<not> (is_zero (net l) \<and> is_zero (vat l) \<and> is_zero (gross l)))"
proof
  show "is_zero (row_net cs cols r) \<and> is_zero (row_vat cs cols r) \<and> is_zero (row_gross cs cols r)
      \<longrightarrow> extract_row sh sn st cs cols r = None"
    by (simp add: extract_row_def)
  show "\<forall>l \<in> set (parse_excel sh fn sheets).
         \<not> (is_zero (net l) \<and> is_zero (vat l) \<and> is_zero (gross l))"
  proof
    fix l
    assume "l \<in> set (parse_excel sh fn sheets)"
    then obtain sn df where "l \<in> set (parse_sheet sh fn sn df)"
      using parse_excel_member by blast
    then obtain r where
      "extract_row sh sn (detect_source_type sn fn) (resolve (columns df)) (columns df) r = Some l"
      using parse_sheet_member by blast
    then show "\<not> (is_zero (net l) \<and> is_zero (vat l) \<and> is_zero (gross l))"
      using extract_row_Some by blast
  qed
qed

text \<open>A sheet with one zero row and one row of amounts.\<close>

theorem zero_rows_give_no_line_witness:
  "is_zero (row_net (resolve [''Net'', ''VAT'']) [''Net'', ''VAT''] [CInt 0, CStr ''''])
   \<and> is_zero (row_vat (resolve [''Net'', ''VAT'']) [''Net'', ''VAT''] [CInt 0, CStr ''''])
   \<and> is_zero (row_gross (resolve [''Net'', ''VAT'']) [''Net'', ''VAT''] [CInt 0, CStr ''''])
   \<and> extract_row ''ledger'' ''Sales'' ''sales'' (resolve [''Net'', ''VAT'']) [''Net'', ''VAT'']
         [CInt 0, CStr ''''] = None
   \<and> length (parse_excel ''ledger'' ''ledger.xlsx'' [(''Sales'', Some example_sheet)]) = 1
   \<and> list_all (\<lambda>l. \<not> (is_zero (net l) \<and> is_zero (vat l) \<and> is_zero (gross l)))
         (parse_excel ''ledger'' ''ledger.xlsx'' [(''Sales'', Some example_sheet)])"
proof -
  have z: "is_zero (row_net (resolve [''Net'', ''VAT'']) [''Net'', ''VAT''] [CInt 0, CStr ''''])"
    "is_zero (row_vat (resolve [''Net'', ''VAT'']) [''Net'', ''VAT''] [CInt 0, CStr ''''])"
    "is_zero (row_gross (resolve [''Net'', ''VAT'']) [''Net'', ''VAT''] [CInt 0, CStr ''''])"
    by (simp_all add: example_zero_row is_zero_def)
  have n: "length (parse_excel ''ledger'' ''ledger.xlsx'' [(''Sales'', Some example_sheet)]) = 1"
    by (simp add: parse_excel_def example_lines)
  note t = zero_rows_give_no_line [of "resolve [''Net'', ''VAT'']" "[''Net'', ''VAT'']"
      "[CInt 0, CStr '''']" "''ledger''" "''Sales''" "''sales''" "''ledger.xlsx''"
      "[(''Sales'', Some example_sheet)]"]
  show ?thesis using z n t by (simp add: list_all_iff)
qed

text \<open>
  C7. In a sheet where no gross column resolves, the gross of every Line is the float sum
  of its net and its vat: the same value, and equal to it under \<open>==\<close> whenever that sum is
  not NaN (NaN, which the texts \<open>nan\<close> or \<open>inf\<close> and \<open>-inf\<close> in the amount cells lead to,
  equals nothing under \<open>==\<close>).
\<close>

theorem gross_defaults_to_net_plus_vat:
  assumes "c_gross (resolve (columns df)) = None"
  shows "\<forall>l \<in> set (parse_sheet sh fn sn df).
           gross l = fadd (net l) (vat l)
           \<and> (fadd (net l) (vat l) \<noteq> NaN \<longrightarrow> py_eq (gross l) (fadd (net l) (vat l)))"
proof
  fix l
  assume "l \<in> set (parse_sheet sh fn sn df)"
  then obtain r where
    "extract_row sh sn (detect_source_type sn fn) (resolve (columns df)) (columns df) r = Some l"
    using parse_sheet_member by blast
  then have "net l = row_net (resolve (columns df)) (columns df) r"
    "vat l = row_vat (resolve (columns df)) (columns df) r"
    "gross l = row_gross (resolve (columns df)) (columns df) r"
    using extract_row_Some by blast+
  then have "gross l = fadd (net l) (vat l)"
    using assms by (simp add: row_gross_def)
  then show "gross l = fadd (net l) (vat l)
           \<and> (fadd (net l) (vat l) \<noteq> NaN \<longrightarrow> py_eq (gross l) (fadd (net l) (vat l)))"
    by (simp add: py_eq_def)
qed

theorem gross_defaults_to_net_plus_vat_witness:
  "c_gross (resolve (columns example_sheet)) = None
   \<and> map net (parse_sheet ''ledger'' ''ledger.xlsx'' ''Sales'' example_sheet) = [Fin 100]
   \<and> map vat (parse_sheet ''ledger'' ''ledger.xlsx'' ''Sales'' example_sheet) = [Fin 20]
   \<and> list_all (\<lambda>l. gross l = fadd (net l) (vat l))
        (parse_sheet ''ledger'' ''ledger.xlsx'' ''Sales'' example_sheet)
   \<and> fadd (Fin 100) (Fin 20) \<noteq> NaN
   \<and> list_all (\<lambda>l. py_eq (gross l) (fadd (net l) (vat l)))
        (parse_sheet ''ledger'' ''ledger.xlsx'' ''Sales'' example_sheet)"
proof -
  have h: "c_gross (resolve (columns example_sheet)) = None"
    by (simp add: example_sheet_def example_resolved)
  have v: "map net (parse_sheet ''ledger'' ''ledger.xlsx'' ''Sales'' example_sheet) = [Fin 100]"
    "map vat (parse_sheet ''ledger'' ''ledger.xlsx'' ''Sales'' example_sheet) = [Fin 20]"
    by (simp_all add: example_lines)
  have "fadd (Fin 100) (Fin 20) = Fin 120"
    using fadd_whole [of 100 20] by simp
  then have n: "fadd (Fin 100) (Fin 20) \<noteq> NaN" by simp
  show ?thesis
    using h v n gross_defaults_to_net_plus_vat [OF h, of "''ledger''" "''ledger.xlsx''" "''Sales''"]
    by (simp add: list_all_iff example_lines del: fadd.simps)
qed

lemma no_description_is_exempt: "normalise_vat_code (CStr '''') (py_str CNone) = ''EXEMPT''"
  by code_simp

text \<open>
  C10. In a sheet where neither a VAT code column nor a description column resolves, every
  Line has the VAT code \<open>EXEMPT\<close>: the fallback description is the text \<open>None\<close>, in which
  the table scan finds the key \<open>e\<close>.
\<close>

theorem no_code_no_description_is_exempt:
  assumes "c_code (resolve (columns df)) = None" and "c_desc (resolve (columns df)) = None"
  shows "(\<forall>l \<in> set (parse_sheet sh fn sn df). vat_code l = Some ''EXEMPT'')
         \<and> py_str (row_get (columns df) r (c_desc (resolve (columns df)))) = ''None''
         \<and> first_hit NORMALISE_MAP (lower ''None'') = Some ''EXEMPT''"
proof -
  have "vat_code l = Some ''EXEMPT''" if mem: "l \<in> set (parse_sheet sh fn sn df)" for l
  proof -
    obtain r' where
      "extract_row sh sn (detect_source_type sn fn) (resolve (columns df)) (columns df) r' = Some l"
      using mem parse_sheet_member by blast
    then have "vat_code l = Some (normalise_vat_code (CStr '''')
                 (py_str (row_get (columns df) r' (c_desc (resolve (columns df))))))"
      using extract_row_Some [of sh sn _ "resolve (columns df)" "columns df" r' l] assms(1)
      by simp
    then show ?thesis
      using assms(2) by (simp add: row_get_def no_description_is_exempt [simplified])
  qed
  moreover have "py_str (row_get (columns df) r (c_desc (resolve (columns df)))) = ''None''"
    using assms(2) by (simp add: row_get_def)
  moreover have "first_hit NORMALISE_MAP (lower ''None'') = Some ''EXEMPT''"
    by code_simp
  ultimately show ?thesis by blast
qed

theorem no_code_no_description_is_exempt_witness:
  "c_code (resolve (columns example_sheet)) = None
   \<and> c_desc (resolve (columns example_sheet)) = None
   \<and> length (parse_sheet ''ledger'' ''ledger.xlsx'' ''Sales'' example_sheet) = 1
   \<and> list_all (\<lambda>l. vat_code l = Some ''EXEMPT'')
        (parse_sheet ''ledger'' ''ledger.xlsx'' ''Sales'' example_sheet)"
proof -
  have h: "c_code (resolve (columns example_sheet)) = None"
    "c_desc (resolve (columns example_sheet)) = None"
    by (simp_all add: example_sheet_def example_resolved)
  have n: "length (parse_sheet ''ledger'' ''ledger.xlsx'' ''Sales'' example_sheet) = 1"
    by (simp add: example_lines)
  show ?thesis
    using h n
      no_code_no_description_is_exempt [OF h, of "''ledger''" "''ledger.xlsx''" "''Sales''"]
    by (simp add: list_all_iff)
qed

section \<open>The box rules\<close>

lemmas rule_defs = sales_standard_def purchase_reclaim_def sales_zero_def supplies_ni_eu_def
  acquisitions_ni_eu_def

text \<open>
  C4 (amended). The three chained rules exclude one another, and so do the two NI/EU
  rules; the NI/EU rules are evaluated after the chain whatever it did, box 8 and box 9
  each depending on its own condition only; but no Line fires an NI/EU rule on top of a
  chained rule, since the codes NI and EU are not among T20, REDUCED and T0. A sales Line
  with the code EU and net 50 adds 50 to box 8 and changes no other box.
\<close>

theorem box_rules_fire_alone:
  "\<not> (sales_standard l \<and> purchase_reclaim l) \<and> \<not> (sales_standard l \<and> sales_zero l)
   \<and> \<not> (purchase_reclaim l \<and> sales_zero l)
   \<and> \<not> (supplies_ni_eu l \<and> acquisitions_ni_eu l)
   \<and> (supplies_ni_eu l \<or> acquisitions_ni_eu l
        \<longrightarrow> \<not> sales_standard l \<and> \<not> purchase_reclaim l \<and> \<not> sales_zero l)
   \<and> apply_rules l b Box1 = (if sales_standard l then fadd (b Box1) (vat l) else b Box1)
   \<and> apply_rules l b Box4 = (if purchase_reclaim l then fadd (b Box4) (vat l) else b Box4)
   \<and> apply_rules l b Box6
       = (if sales_standard l \<or> sales_zero l then fadd (b Box6) (net l) else b Box6)
   \<and> apply_rules l b Box7 = (if purchase_reclaim l then fadd (b Box7) (net l) else b Box7)
   \<and> apply_rules l b Box8 = (if supplies_ni_eu l then fadd (b Box8) (net l) else b Box8)
   \<and> apply_rules l b Box9 = (if acquisitions_ni_eu l then fadd (b Box9) (net l) else b Box9)
   \<and> (source_type l = ''sales'' \<and> vat_code l = Some ''EU'' \<and> net l = Fin 50
        \<longrightarrow> apply_rules l b Box8 = fadd (b Box8) (Fin 50)
            \<and> (\<forall>k. k \<noteq> Box8 \<longrightarrow> apply_rules l b k = b k))"
proof -
  have excl: "\<not> (sales_standard l \<and> purchase_reclaim l)" "\<not> (sales_standard l \<and> sales_zero l)"
    "\<not> (purchase_reclaim l \<and> sales_zero l)" "\<not> (supplies_ni_eu l \<and> acquisitions_ni_eu l)"
    "supplies_ni_eu l \<or> acquisitions_ni_eu l
       \<longrightarrow> \<not> sales_standard l \<and> \<not> purchase_reclaim l \<and> \<not> sales_zero l"
    by (auto simp: rule_defs)
  have boxes: "apply_rules l b Box1 = (if sales_standard l then fadd (b Box1) (vat l) else b Box1)"
    "apply_rules l b Box4 = (if purchase_reclaim l then fadd (b Box4) (vat l) else b Box4)"
    "apply_rules l b Box6
       = (if sales_standard l \<or> sales_zero l then fadd (b Box6) (net l) else b Box6)"
    "apply_rules l b Box7 = (if purchase_reclaim l then fadd (b Box7) (net l) else b Box7)"
    "apply_rules l b Box8 = (if supplies_ni_eu l then fadd (b Box8) (net l) else b Box8)"
    "apply_rules l b Box9 = (if acquisitions_ni_eu l then fadd (b Box9) (net l) else b Box9)"
    using excl by (auto simp: apply_rules_def add_to_def Let_def)
  have example: "source_type l = ''sales'' \<and> vat_code l = Some ''EU'' \<and> net l = Fin 50
        \<longrightarrow> apply_rules l b Box8 = fadd (b Box8) (Fin 50)
            \<and> (\<forall>k. k \<noteq> Box8 \<longrightarrow> apply_rules l b k = b k)"
    by (auto simp: rule_defs apply_rules_def add_to_def Let_def)
  show ?thesis using excl boxes example by blast
qed

theorem box_rules_fire_alone_witness:
  "source_type (ledger_line ''ledger'' ''sales'' ''EU'' (Fin 50) (Fin 0)) = ''sales''
   \<and> vat_code (ledger_line ''ledger'' ''sales'' ''EU'' (Fin 50) (Fin 0)) = Some ''EU''
   \<and> net (ledger_line ''ledger'' ''sales'' ''EU'' (Fin 50) (Fin 0)) = Fin 50
   \<and> supplies_ni_eu (ledger_line ''ledger'' ''sales'' ''EU'' (Fin 50) (Fin 0))
   \<and> \<not> sales_standard (ledger_line ''ledger'' ''sales'' ''EU'' (Fin 50) (Fin 0))
   \<and> \<not> purchase_reclaim (ledger_line ''ledger'' ''sales'' ''EU'' (Fin 50) (Fin 0))
   \<and> \<not> sales_zero (ledger_line ''ledger'' ''sales'' ''EU'' (Fin 50) (Fin 0))
   \<and> apply_rules (ledger_line ''ledger'' ''sales'' ''EU'' (Fin 50) (Fin 0)) init_acc Box8
       = fadd (Fin 0) (Fin 50)
   \<and> apply_rules (ledger_line ''ledger'' ''sales'' ''EU'' (Fin 50) (Fin 0)) init_acc Box6 = Fin 0"
proof -
  let ?l = "ledger_line ''ledger'' ''sales'' ''EU'' (Fin 50) (Fin 0)"
  have h: "source_type ?l = ''sales''" "vat_code ?l = Some ''EU''" "net ?l = Fin 50"
    by (simp_all add: ledger_line_def)
  have s: "supplies_ni_eu ?l" using h by (simp add: supplies_ni_eu_def)
  show ?thesis
    using h s box_rules_fire_alone [of ?l init_acc]
    by (simp add: init_acc_def del: fadd.simps)
qed

text \<open>
  C4 as stated fails: there is no Line on which one of the first three rules and an NI/EU
  rule both fire.
\<close>

theorem no_rule_fires_on_top_counterexample:
  "\<not> (\<exists>l. (sales_standard l \<or> purchase_reclaim l \<or> sales_zero l)
            \<and> (supplies_ni_eu l \<or> acquisitions_ni_eu l))"
  by (auto simp: rule_defs)

section \<open>Consolidation\<close>

lemma consolidate_fold:
  "foldl (\<lambda>consolidated (s, acc). (\<lambda>k. fadd (consolidated k) (boxes acc k))) c0 groups k
   = foldl fadd (c0 k) (map (\<lambda>(s, acc). boxes acc k) groups)"
  by (induction groups arbitrary: c0) (auto split: prod.splits)

text \<open>
  C5. For every box, the consolidated total is the sum of the groups' totals of that box:
  the float sum from 0.0, taken left to right over the groups in the order in which the
  shows first occur.
\<close>

theorem consolidated_is_sum_of_groups:
  "consolidated (assign_boxes lns) k
   = foldl fadd (Fin 0) (map (\<lambda>(s, acc). boxes acc k) (per_show (assign_boxes lns)))"
  by (simp add: assign_boxes_def consolidate_def consolidate_fold init_acc_def Let_def)


section \<open>Sums on a grid of a power of two\<close>

lemma pow2_powi: "pow2 e = 2 powi e"
  by (simp add: pow2_def power_int_def inverse_eq_divide power_one_over)

lemma pow2_pos: "0 < pow2 e"
  by (simp add: pow2_powi)

lemma pow2_add: "pow2 (a + b) = pow2 a * pow2 b"
  by (simp add: pow2_powi power_int_add)

lemma pow2_mono: "a \<le> b \<Longrightarrow> pow2 a \<le> pow2 b"
  by (simp add: pow2_powi power_int_increasing)

lemma pow2_less_cancel: "pow2 a < pow2 b \<Longrightarrow> a < b"
  using pow2_mono [of b a] by (cases "a < b") auto

lemma pow2_nat: "pow2 (int k) = 2 ^ k"
  by (simp add: pow2_def)

lemma bit_length_bounds:
  "0 < m \<Longrightarrow> 2 ^ (bit_length m - 1) \<le> m \<and> m < 2 ^ bit_length m"
proof (induction m rule: less_induct)
  case (less n)
  show ?case
  proof (cases "n = 1")
    case True
    then show ?thesis by (simp add: bit_length.simps)
  next
    case False
    then have h: "0 < n div 2" "n div 2 < n" using less.prems by auto
    have ih: "2 ^ (bit_length (n div 2) - 1) \<le> n div 2" "n div 2 < 2 ^ bit_length (n div 2)"
      using less.IH [OF h(2) h(1)] by auto
    have bl: "bit_length n = Suc (bit_length (n div 2))"
      using less.prems by (subst bit_length.simps) simp
    have pos: "0 < bit_length (n div 2)"
      using h(1) by (subst bit_length.simps) simp
    then obtain j where j: "bit_length (n div 2) = Suc j" by (cases "bit_length (n div 2)") auto
    have "2 ^ j \<le> n div 2" using ih(1) unfolding j by (simp del: bit_length.simps)
    then have a: "2 * 2 ^ j \<le> n" by linarith
    have "n div 2 < 2 ^ Suc j" using ih(2) unfolding j .
    then have b: "n < 2 * 2 ^ Suc j" by linarith
    show ?thesis using a b unfolding bl j by (simp del: bit_length.simps)
  qed
qed

lemma exponent_of_le:
  assumes "0 < q"
  shows "pow2 (exponent_of q) \<le> q"
proof -
  obtain a b where ab: "quotient_of q = (a, b)" by (cases "quotient_of q")
  have b: "0 < b" using ab by (rule quotient_of_denom_pos)
  have q: "q = of_int a / of_int b" using ab by (rule quotient_of_div)
  have a: "0 < a" using assms b q by (simp add: zero_less_divide_iff)
  define la lb where "la = bit_length (nat a)" and "lb = bit_length (nat b)"
  have ba: "2 ^ (la - 1) \<le> nat a"
    using bit_length_bounds [of "nat a"] a by (simp add: la_def)
  have bb: "nat b < 2 ^ lb"
    using bit_length_bounds [of "nat b"] b by (simp add: lb_def)
  have la: "0 < la"
    using a unfolding la_def by (subst bit_length.simps) simp
  have "(of_nat (2 ^ (la - 1)) :: rat) \<le> of_nat (nat a)" using ba by (simp only: of_nat_le_iff)
  then have ra: "(2::rat) ^ (la - 1) \<le> of_int a" using a by simp
  have "(of_nat (nat b) :: rat) < of_nat (2 ^ lb)" using bb by (simp only: of_nat_less_iff)
  then have rb: "(of_int b :: rat) < 2 ^ lb" using b by simp
  have bpos: "(0::rat) < of_int b" using b by simp
  have apos: "(0::rat) < of_int a" using a by simp
  have "int la - int lb - 1 = int (la - 1) + (- int lb)" using la by simp
  then have "pow2 (int la - int lb - 1) = pow2 (int (la - 1)) * pow2 (- int lb)"
    by (simp only: pow2_add)
  also have "\<dots> = 2 ^ (la - 1) / 2 ^ lb"
    by (simp add: pow2_nat pow2_powi power_int_minus_divide)
  also have "\<dots> \<le> of_int a / 2 ^ lb" using ra by (simp add: divide_right_mono)
  also have "\<dots> \<le> of_int a / of_int b"
    using rb bpos apos by (intro divide_left_mono) simp_all
  finally have low: "pow2 (int la - int lb - 1) \<le> q" by (simp add: q)
  show ?thesis
    using low
    by (simp add: exponent_of_def ab la_def [symmetric] lb_def [symmetric] Let_def
          del: bit_length.simps)
qed

lemma exponent_of_less:
  assumes "0 < q" and "q < pow2 m"
  shows "exponent_of q < m"
proof -
  have "pow2 (exponent_of q) < pow2 m"
    using exponent_of_le [OF assms(1)] assms(2) by simp
  then show ?thesis by (rule pow2_less_cancel)
qed

lemma round_double_grid:
  assumes "\<bar>n\<bar> < 2 ^ 53" and "- 1074 \<le> e" and "e \<le> 971"
  shows "round_double (of_int n * pow2 e) = Fin (of_int n * pow2 e)"
proof (cases "n = 0")
  case True
  then show ?thesis by (simp add: round_double_def)
next
  case False
  let ?q = "of_int n * pow2 e :: rat"
  have nz: "?q \<noteq> 0" using False pow2_pos [of e] by simp
  have absq: "\<bar>?q\<bar> = of_int \<bar>n\<bar> * pow2 e" using pow2_pos [of e] by (simp add: abs_mult)
  have qpos: "0 < \<bar>?q\<bar>" using nz by simp
  have "(of_int \<bar>n\<bar> :: rat) < 2 ^ 53"
    using assms(1) by (metis of_int_less_numeral_power_cancel_iff)
  then have "\<bar>?q\<bar> < 2 ^ 53 * pow2 e"
    unfolding absq using pow2_pos [of e] by (simp only: mult_strict_right_mono)
  also have "\<dots> = pow2 (53 + e)"
  proof -
    have "pow2 53 = (2::rat) ^ 53" by (simp add: pow2_def)
    then show ?thesis by (simp only: pow2_add)
  qed
  finally have lt: "\<bar>?q\<bar> < pow2 (53 + e)" .
  define E where "E = exponent_of \<bar>?q\<bar>"
  have E: "E < 53 + e" unfolding E_def using qpos lt by (rule exponent_of_less)
  define e' where "e' = max E (- 1022)"
  have e': "e' \<le> 52 + e" using E assms(2) by (simp add: e'_def)
  define k where "k = nat (52 + e - e')"
  have "e = (e' - 52) + int k" using e' by (simp add: k_def)
  then have "pow2 e = pow2 (e' - 52) * pow2 (int k)" by (simp only: pow2_add)
  then have pe: "pow2 e = pow2 (e' - 52) * 2 ^ k" by (simp add: pow2_nat)
  have upos: "pow2 (e' - 52) \<noteq> 0" using pow2_pos [of "e' - 52"] by simp
  have s: "?q / pow2 (e' - 52) = of_int (n * 2 ^ k)"
    using upos by (simp add: pe)
  have r: "of_int (round_half_even (?q / pow2 (e' - 52))) * pow2 (e' - 52) = ?q"
    unfolding s round_half_even_of_int by (simp add: pe)
  have "pow2 (53 + e) \<le> pow2 1024" using assms(3) by (intro pow2_mono) simp
  also have "pow2 1024 = 2 ^ 1024" by (simp add: pow2_def)
  finally have small: "\<not> (2::rat) ^ 1024 \<le> \<bar>?q\<bar>" using lt by simp
  have "round_double ?q =
          (if 2 ^ 1024 \<le> \<bar>?q\<bar> then (if 0 < ?q then PInf else NInf) else Fin ?q)"
    unfolding round_double_def Let_def E_def [symmetric] e'_def [symmetric] r
    using nz by (simp only: if_False)
  then show ?thesis using small by (simp only: if_False)
qed

lemma fadd_grid:
  assumes "\<bar>a + b\<bar> < 2 ^ 53" and "- 1074 \<le> e" and "e \<le> 971"
  shows "fadd (Fin (of_int a * pow2 e)) (Fin (of_int b * pow2 e)) = Fin (of_int (a + b) * pow2 e)"
  using round_double_grid [OF assms] by (simp add: distrib_right)


section \<open>Grouping and reordering\<close>

lemma apply_rules_contribution: "apply_rules l b k = add_contribution k (b k) l"
  by (cases k) (auto simp: add_contribution_def apply_rules_def add_to_def Let_def rule_defs)

lemma fold_rules_contribution:
  "foldl (\<lambda>b l. apply_rules l b) b0 ls k = foldl (add_contribution k) (b0 k) ls"
  by (induction ls arbitrary: b0) (simp_all add: apply_rules_contribution)

lemma grid_iff: "grid e q \<longleftrightarrow> (\<exists>n. q = of_int n * pow2 e)"
proof
  assume "grid e q"
  then have "q = of_int \<lfloor>q / pow2 e\<rfloor> * pow2 e" by (simp add: grid_def)
  then show "\<exists>n. q = of_int n * pow2 e" by blast
next
  assume "\<exists>n. q = of_int n * pow2 e"
  then obtain n where n: "q = of_int n * pow2 e" by blast
  have "pow2 e \<noteq> 0" using pow2_pos [of e] by simp
  then have "q / pow2 e = of_int n" by (simp add: n)
  then show "grid e q" by (simp add: grid_def n)
qed

lemma grid_zero: "grid e 0"
  by (simp add: grid_def)

lemma grid_add: "grid e p \<Longrightarrow> grid e q \<Longrightarrow> grid e (p + q)"
proof -
  assume "grid e p" "grid e q"
  then obtain m n where "p = of_int m * pow2 e" "q = of_int n * pow2 e"
    by (auto simp: grid_iff)
  then have "p + q = of_int (m + n) * pow2 e" by (simp add: distrib_right)
  then show ?thesis unfolding grid_iff by blast
qed

lemma fadd_on_grid:
  assumes "grid e p" and "grid e q" and "- 1074 \<le> e" and "e \<le> 971"
    and "\<bar>p + q\<bar> < 2 ^ 53 * pow2 e"
  shows "fadd (Fin p) (Fin q) = Fin (p + q)"
proof -
  obtain m n where mn: "p = of_int m * pow2 e" "q = of_int n * pow2 e"
    using assms(1,2) by (auto simp: grid_iff)
  have s: "p + q = of_int (m + n) * pow2 e" by (simp add: mn distrib_right)
  have u: "0 < pow2 e" by (rule pow2_pos)
  have "\<bar>p + q\<bar> = of_int \<bar>m + n\<bar> * pow2 e"
    unfolding s using u by (simp only: abs_mult of_int_abs abs_of_pos)
  then have "of_int \<bar>m + n\<bar> * pow2 e < 2 ^ 53 * pow2 e" using assms(5) by simp
  then have "(of_int \<bar>m + n\<bar> :: rat) < 2 ^ 53" using u by (simp only: mult_less_cancel_right_pos)
  then have "\<bar>m + n\<bar> < 2 ^ 53" by (metis of_int_less_numeral_power_cancel_iff)
  then have "fadd (Fin (of_int m * pow2 e)) (Fin (of_int n * pow2 e)) = Fin (of_int (m + n) * pow2 e)"
    using assms(3,4) by (intro fadd_grid)
  then show ?thesis by (simp add: mn distrib_right)
qed

lemma magnitude_nonneg: "0 \<le> magnitude x"
  by (cases x) (simp_all add: magnitude_def)

lemma line_magnitude_nonneg: "0 \<le> magnitude (net l) + magnitude (vat l)"
  using magnitude_nonneg [of "net l"] magnitude_nonneg [of "vat l"] by simp

lemma exact_contribution_abs:
  "\<bar>exact_contribution k l\<bar> \<le> magnitude (net l) + magnitude (vat l)"
  using magnitude_nonneg [of "net l"] magnitude_nonneg [of "vat l"]
  by (cases k; cases "net l"; cases "vat l") (auto simp: exact_contribution_def magnitude_def)

lemma add_contribution_exact:
  assumes "on_grid e (net l)" and "on_grid e (vat l)" and "grid e a"
    and "- 1074 \<le> e" and "e \<le> 971"
    and "\<bar>a\<bar> + (magnitude (net l) + magnitude (vat l)) < 2 ^ 53 * pow2 e"
  shows "grid e (exact_contribution k l)
         \<and> add_contribution k (Fin a) l = Fin (a + exact_contribution k l)"
proof (cases "contribution k l")
  case None
  then show ?thesis by (simp add: exact_contribution_def add_contribution_def grid_zero)
next
  case (Some x)
  then have "x = net l \<or> x = vat l" by (cases k) (auto split: if_splits)
  then have "on_grid e x" using assms(1,2) by auto
  then obtain c where c: "x = Fin c" "grid e c" by (cases x) (auto simp: on_grid_def)
  have ec: "exact_contribution k l = c" by (simp add: exact_contribution_def Some c)
  have "\<bar>a + c\<bar> \<le> \<bar>a\<bar> + \<bar>c\<bar>" by (rule abs_triangle_ineq)
  also have "\<bar>c\<bar> \<le> magnitude (net l) + magnitude (vat l)"
    using exact_contribution_abs [of k l] by (simp add: ec)
  finally have "\<bar>a + c\<bar> < 2 ^ 53 * pow2 e" using assms(6) by simp
  then have "fadd (Fin a) (Fin c) = Fin (a + c)"
    using assms(3) c(2) assms(4,5) by (intro fadd_on_grid)
  then show ?thesis using c by (simp add: ec add_contribution_def Some)
qed

lemma fold_contribution_exact:
  assumes "list_all (\<lambda>l. on_grid e (net l) \<and> on_grid e (vat l)) ls" and "grid e a"
    and "- 1074 \<le> e" and "e \<le> 971"
    and "\<bar>a\<bar> + (\<Sum>l\<leftarrow>ls. magnitude (net l) + magnitude (vat l)) < 2 ^ 53 * pow2 e"
  shows "grid e (\<Sum>l\<leftarrow>ls. exact_contribution k l)
         \<and> foldl (add_contribution k) (Fin a) ls = Fin (a + (\<Sum>l\<leftarrow>ls. exact_contribution k l))"
  using assms(1,2,5)
proof (induction ls arbitrary: a)
  case Nil
  then show ?case by (simp add: grid_zero)
next
  case (Cons l ls)
  let ?m = "magnitude (net l) + magnitude (vat l)"
  let ?rest = "\<Sum>l\<leftarrow>ls. magnitude (net l) + magnitude (vat l)"
  let ?c = "exact_contribution k l"
  have rest0: "0 \<le> ?rest" by (intro sum_list_nonneg) (auto simp: line_magnitude_nonneg)
  have w: "on_grid e (net l)" "on_grid e (vat l)" using Cons.prems(1) by simp_all
  have b1: "\<bar>a\<bar> + ?m < 2 ^ 53 * pow2 e" using Cons.prems(3) rest0 by simp
  have step: "grid e ?c" "add_contribution k (Fin a) l = Fin (a + ?c)"
    using add_contribution_exact [OF w Cons.prems(2) assms(3,4) b1, of k] by simp_all
  have ga: "grid e (a + ?c)" using Cons.prems(2) step(1) by (rule grid_add)
  have "\<bar>a + ?c\<bar> \<le> \<bar>a\<bar> + \<bar>?c\<bar>" by (rule abs_triangle_ineq)
  also have "\<bar>?c\<bar> \<le> ?m" by (rule exact_contribution_abs)
  finally have b2: "\<bar>a + ?c\<bar> + ?rest < 2 ^ 53 * pow2 e" using Cons.prems(3) by simp
  have rest: "list_all (\<lambda>l. on_grid e (net l) \<and> on_grid e (vat l)) ls"
    using Cons.prems(1) by simp
  have ih: "grid e (\<Sum>l\<leftarrow>ls. exact_contribution k l)"
    "foldl (add_contribution k) (Fin (a + ?c)) ls
     = Fin (a + ?c + (\<Sum>l\<leftarrow>ls. exact_contribution k l))"
    using Cons.IH [OF rest ga b2] by simp_all
  have "grid e (\<Sum>l\<leftarrow>l # ls. exact_contribution k l)"
    using grid_add [OF step(1) ih(1)] by simp
  moreover have "foldl (add_contribution k) (Fin a) (l # ls)
                 = Fin (a + (\<Sum>l\<leftarrow>l # ls. exact_contribution k l))"
    using step(2) ih(2) by (simp add: add.assoc)
  ultimately show ?case by blast
qed

lemma fold_fadd_exact:
  assumes "\<forall>q \<in> set qs. grid e q" and "grid e a" and "- 1074 \<le> e" and "e \<le> 971"
    and "\<bar>a\<bar> + (\<Sum>q\<leftarrow>qs. \<bar>q\<bar>) < 2 ^ 53 * pow2 e"
  shows "foldl fadd (Fin a) (map Fin qs) = Fin (a + sum_list qs)"
  using assms(1,2,5)
proof (induction qs arbitrary: a)
  case Nil
  then show ?case by simp
next
  case (Cons q qs)
  have rest0: "0 \<le> (\<Sum>q\<leftarrow>qs. \<bar>q\<bar>)" by (intro sum_list_nonneg) auto
  have gq: "grid e q" using Cons.prems(1) by simp
  have "\<bar>a + q\<bar> \<le> \<bar>a\<bar> + \<bar>q\<bar>" by (rule abs_triangle_ineq)
  then have b: "\<bar>a + q\<bar> + (\<Sum>q\<leftarrow>qs. \<bar>q\<bar>) < 2 ^ 53 * pow2 e" using Cons.prems(3) by simp
  then have "\<bar>a + q\<bar> < 2 ^ 53 * pow2 e" using rest0 by simp
  then have step: "fadd (Fin a) (Fin q) = Fin (a + q)"
    using Cons.prems(2) gq assms(3,4) by (intro fadd_on_grid)
  have ga: "grid e (a + q)" using Cons.prems(2) gq by (rule grid_add)
  have "foldl fadd (Fin (a + q)) (map Fin qs) = Fin (a + q + sum_list qs)"
    using Cons.IH [OF _ ga b] Cons.prems(1) by simp
  then show ?case using step by (simp add: add.assoc)
qed

lemma touch_map:
  assumes "distinct keys"
  shows "touch l (map (\<lambda>s. (s, g s)) keys) =
           (if show_id l \<in> set keys
            then map (\<lambda>s. (s, if s = show_id l
                              then \<lparr>boxes = apply_rules l (boxes (g s)), lines = lines (g s) @ [l]\<rparr>
                              else g s)) keys
            else map (\<lambda>s. (s, g s)) keys
                 @ [(show_id l, \<lparr>boxes = apply_rules l init_acc, lines = [l]\<rparr>)])"
  using assms by (induction keys) auto

lemma aggregate_snoc: "aggregate (lns @ [l]) = touch l (aggregate lns)"
  by (simp add: aggregate_def)

lemma group_of_snoc:
  "group_of (lns @ [l]) s =
     (if s = show_id l
      then \<lparr>boxes = apply_rules l (boxes (group_of lns s)), lines = lines (group_of lns s) @ [l]\<rparr>
      else group_of lns s)"
  by (simp add: group_of_def)

lemma group_of_absent:
  "s \<notin> show_id ` set lns \<Longrightarrow> group_of lns s = \<lparr>boxes = init_acc, lines = []\<rparr>"
proof -
  assume "s \<notin> show_id ` set lns"
  then have "filter (\<lambda>l. show_id l = s) lns = []" by (auto simp: filter_empty_conv)
  then show ?thesis by (simp add: group_of_def)
qed

lemma aggregate_groups:
  "aggregate lns = map (\<lambda>s. (s, group_of lns s)) (dict_keys (map show_id lns))"
proof (induction lns rule: rev_induct)
  case Nil
  then show ?case by (simp add: aggregate_def dict_keys_Nil)
next
  case (snoc l lns)
  let ?keys = "dict_keys (map show_id lns)"
  have d: "distinct ?keys" by (rule distinct_dict_keys)
  have k: "set ?keys = show_id ` set lns" by (simp add: set_dict_keys)
  show ?case
  proof (cases "show_id l \<in> set ?keys")
    case True
    then show ?thesis
      using snoc.IH touch_map [OF d, of l "group_of lns"]
      by (simp add: aggregate_snoc dict_keys_snoc group_of_snoc)
  next
    case False
    then have "group_of lns (show_id l) = \<lparr>boxes = init_acc, lines = []\<rparr>"
      using k group_of_absent by simp
    moreover have "\<forall>s \<in> set ?keys. s \<noteq> show_id l" using False by auto
    ultimately show ?thesis
      using False snoc.IH touch_map [OF d, of l "group_of lns"]
      by (simp add: aggregate_snoc dict_keys_snoc group_of_snoc)
  qed
qed

lemma map_of_keyed:
  "map_of (map (\<lambda>s. (s, g s)) keys) s = (if s \<in> set keys then Some (g s) else None)"
  by (induction keys) auto

lemma group_lookup:
  "map_of (aggregate lns) s = (if s \<in> show_id ` set lns then Some (group_of lns s) else None)"
  by (simp add: aggregate_groups map_of_keyed set_dict_keys)

lemma sum_by_key:
  fixes g :: "'a \<Rightarrow> rat"
  assumes "distinct keys" and "f ` set xs \<subseteq> set keys"
  shows "(\<Sum>s\<leftarrow>keys. \<Sum>x\<leftarrow>filter (\<lambda>x. f x = s) xs. g x) = (\<Sum>x\<leftarrow>xs. g x)"
  using assms(2)
proof (induction xs)
  case Nil
  then show ?case by simp
next
  case (Cons x xs)
  have in_keys: "f x \<in> set keys" using Cons.prems by simp
  have "(\<Sum>s\<leftarrow>keys. \<Sum>y\<leftarrow>filter (\<lambda>y. f y = s) (x # xs). g y)
        = (\<Sum>s\<leftarrow>keys. (if f x = s then g x else 0) + (\<Sum>y\<leftarrow>filter (\<lambda>y. f y = s) xs. g y))"
    by (intro arg_cong [where f = sum_list] map_cong) auto
  also have "\<dots> = (\<Sum>s\<leftarrow>keys. if f x = s then g x else 0)
                  + (\<Sum>s\<leftarrow>keys. \<Sum>y\<leftarrow>filter (\<lambda>y. f y = s) xs. g y)"
    by (simp add: sum_list_addf)
  also have "(\<Sum>s\<leftarrow>keys. if f x = s then g x else 0) = g x"
    using assms(1) in_keys by (simp add: sum_list_distinct_conv_sum_set)
  also have "(\<Sum>s\<leftarrow>keys. \<Sum>y\<leftarrow>filter (\<lambda>y. f y = s) xs. g y) = (\<Sum>y\<leftarrow>xs. g y)"
    using Cons by simp
  finally show ?case by simp
qed

lemma sum_filter_le:
  fixes h :: "'a \<Rightarrow> rat"
  assumes "\<And>x. 0 \<le> h x"
  shows "(\<Sum>x\<leftarrow>filter P xs. h x) \<le> (\<Sum>x\<leftarrow>xs. h x)"
proof (induction xs)
  case Nil
  then show ?case by simp
next
  case (Cons x xs)
  then show ?case using assms [of x] by auto
qed

lemma group_total_exact:
  assumes "adds_exactly e lns"
  shows "grid e (\<Sum>l\<leftarrow>filter (\<lambda>l. show_id l = s) lns. exact_contribution k l)
         \<and> boxes (group_of lns s) k
           = Fin (\<Sum>l\<leftarrow>filter (\<lambda>l. show_id l = s) lns. exact_contribution k l)"
proof -
  let ?g = "filter (\<lambda>l. show_id l = s) lns"
  have r: "- 1074 \<le> e" "e \<le> 971" using assms by (simp_all add: adds_exactly_def)
  have w: "list_all (\<lambda>l. on_grid e (net l) \<and> on_grid e (vat l)) ?g"
    using assms by (auto simp: adds_exactly_def list_all_iff)
  have "(\<Sum>l\<leftarrow>?g. magnitude (net l) + magnitude (vat l))
        \<le> (\<Sum>l\<leftarrow>lns. magnitude (net l) + magnitude (vat l))"
    by (rule sum_filter_le) (rule line_magnitude_nonneg)
  then have b: "\<bar>0 :: rat\<bar> + (\<Sum>l\<leftarrow>?g. magnitude (net l) + magnitude (vat l)) < 2 ^ 53 * pow2 e"
    using assms by (simp add: adds_exactly_def)
  have t: "grid e (\<Sum>l\<leftarrow>?g. exact_contribution k l)"
    "foldl (add_contribution k) (Fin 0) ?g = Fin (0 + (\<Sum>l\<leftarrow>?g. exact_contribution k l))"
    using fold_contribution_exact [OF w grid_zero r b, of k] by simp_all
  have "boxes (group_of lns s) k = foldl (add_contribution k) (Fin 0) ?g"
    by (simp add: group_of_def fold_rules_contribution init_acc_def)
  then show ?thesis using t by simp
qed

lemma group_total_value:
  assumes "adds_exactly e lns"
  shows "boxes (group_of lns s) k
         = Fin (\<Sum>l\<leftarrow>filter (\<lambda>l. show_id l = s) lns. exact_contribution k l)"
  using group_total_exact [OF assms, where s = s and k = k] by simp

lemma consolidated_value:
  assumes "adds_exactly e lns"
  shows "consolidate (aggregate lns) k = Fin (\<Sum>l\<leftarrow>lns. exact_contribution k l)"
proof -
  let ?keys = "dict_keys (map show_id lns)"
  let ?gs = "\<lambda>s. \<Sum>l\<leftarrow>filter (\<lambda>l. show_id l = s) lns. exact_contribution k l"
  let ?m = "\<lambda>l. magnitude (net l) + magnitude (vat l)"
  have r: "- 1074 \<le> e" "e \<le> 971" using assms by (simp_all add: adds_exactly_def)
  have d: "distinct ?keys" by (rule distinct_dict_keys)
  have sub: "show_id ` set lns \<subseteq> set ?keys" by (simp add: set_dict_keys)
  have "consolidate (aggregate lns) k
        = foldl fadd (Fin 0) (map (\<lambda>s. boxes (group_of lns s) k) ?keys)"
    by (simp add: consolidate_def consolidate_fold aggregate_groups init_acc_def comp_def)
  also have "map (\<lambda>s. boxes (group_of lns s) k) ?keys = map Fin (map ?gs ?keys)"
    by (simp add: group_total_value [OF assms])
  finally have c: "consolidate (aggregate lns) k = foldl fadd (Fin 0) (map Fin (map ?gs ?keys))" .
  have on: "\<forall>q \<in> set (map ?gs ?keys). grid e q"
    using group_total_exact [OF assms, where k = k] by auto
  have "(\<Sum>q\<leftarrow>map ?gs ?keys. \<bar>q\<bar>) \<le> (\<Sum>s\<leftarrow>?keys. \<Sum>l\<leftarrow>filter (\<lambda>l. show_id l = s) lns. ?m l)"
  proof -
    have "\<And>s. \<bar>?gs s\<bar> \<le> (\<Sum>l\<leftarrow>filter (\<lambda>l. show_id l = s) lns. ?m l)"
    proof -
      fix s
      have "\<bar>?gs s\<bar> \<le> (\<Sum>l\<leftarrow>filter (\<lambda>l. show_id l = s) lns. \<bar>exact_contribution k l\<bar>)"
        using sum_list_abs [of "map (exact_contribution k) (filter (\<lambda>l. show_id l = s) lns)"]
        by (simp add: comp_def)
      also have "\<dots> \<le> (\<Sum>l\<leftarrow>filter (\<lambda>l. show_id l = s) lns. ?m l)"
        by (intro sum_list_mono) (rule exact_contribution_abs)
      finally show "\<bar>?gs s\<bar> \<le> (\<Sum>l\<leftarrow>filter (\<lambda>l. show_id l = s) lns. ?m l)" .
    qed
    then show ?thesis by (simp add: comp_def sum_list_mono)
  qed
  also have "\<dots> = (\<Sum>l\<leftarrow>lns. ?m l)" by (rule sum_by_key [OF d sub])
  finally have b: "\<bar>0 :: rat\<bar> + (\<Sum>q\<leftarrow>map ?gs ?keys. \<bar>q\<bar>) < 2 ^ 53 * pow2 e"
    using assms by (simp add: adds_exactly_def)
  have "consolidate (aggregate lns) k = Fin (0 + sum_list (map ?gs ?keys))"
    unfolding c by (rule fold_fadd_exact [OF on grid_zero r b])
  also have "sum_list (map ?gs ?keys) = (\<Sum>l\<leftarrow>lns. exact_contribution k l)"
    using sum_by_key [OF d sub, of "exact_contribution k"] by (simp add: comp_def)
  finally show ?thesis by simp
qed

lemma sum_list_perm:
  fixes h :: "'a \<Rightarrow> rat"
  assumes "mset xs = mset ys"
  shows "(\<Sum>x\<leftarrow>xs. h x) = (\<Sum>x\<leftarrow>ys. h x)"
proof -
  have "(\<Sum>x\<leftarrow>xs. h x) = sum_mset (image_mset h (mset xs))"
    by (metis mset_map sum_mset_sum_list)
  also have "\<dots> = sum_mset (image_mset h (mset ys))" using assms by simp
  also have "\<dots> = (\<Sum>x\<leftarrow>ys. h x)" by (metis mset_map sum_mset_sum_list)
  finally show ?thesis .
qed

lemma adds_exactly_perm:
  assumes "mset lns' = mset lns" and "adds_exactly e lns"
  shows "adds_exactly e lns'"
proof -
  have "set lns' = set lns" using assms(1) by (rule mset_eq_setD)
  moreover have "(\<Sum>l\<leftarrow>lns'. magnitude (net l) + magnitude (vat l))
                 = (\<Sum>l\<leftarrow>lns. magnitude (net l) + magnitude (vat l))"
    using assms(1) by (rule sum_list_perm)
  ultimately show ?thesis using assms(2) by (simp add: adds_exactly_def list_all_iff)
qed

text \<open>
  C3 (amended). Lines are grouped by their show alone, for every list of Lines: the group
  of a show holds the Lines of that show, in input order, whatever their sheets, and a show
  with no Line has no group. When the amounts add without rounding, every reordering of
  the Lines gives the same box totals for every show and the same consolidated totals. The
  amounts add without rounding when, for some \<open>e\<close> from \<open>-1074\<close> to \<open>971\<close>, every net and
  vat amount is a finite multiple of \<open>2^e\<close> and the magnitudes of all of them sum to less
  than \<open>2^(e + 53)\<close>: whole amounts below \<open>2^53\<close> do, and so do amounts such as 100.5 and
  20.25.
\<close>

theorem totals_invariant_under_reordering:
  "(\<forall>s. map_option lines (map_of (per_show (assign_boxes lns)) s)
        = (if s \<in> show_id ` set lns then Some (filter (\<lambda>l. show_id l = s) lns) else None))
   \<and> (mset lns' = mset lns \<and> adds_exactly e lns \<longrightarrow>
        (\<forall>s. map_option boxes (map_of (per_show (assign_boxes lns')) s)
             = map_option boxes (map_of (per_show (assign_boxes lns)) s))
        \<and> consolidated (assign_boxes lns') = consolidated (assign_boxes lns))"
proof -
  have grouping: "map_option lines (map_of (per_show (assign_boxes lns)) s)
      = (if s \<in> show_id ` set lns then Some (filter (\<lambda>l. show_id l = s) lns) else None)" for s
    by (simp add: assign_boxes_def Let_def group_lookup group_of_def)
  have invariance:
    "(\<forall>s. map_option boxes (map_of (per_show (assign_boxes lns')) s)
          = map_option boxes (map_of (per_show (assign_boxes lns)) s))
     \<and> consolidated (assign_boxes lns') = consolidated (assign_boxes lns)"
    if p: "mset lns' = mset lns" and ex: "adds_exactly e lns"
  proof -
    have ex': "adds_exactly e lns'" using p ex by (rule adds_exactly_perm)
    have sets: "set lns' = set lns" using p by (rule mset_eq_setD)
    have g: "boxes (group_of lns' s) = boxes (group_of lns s)" for s
    proof
      fix k
      have "mset (filter (\<lambda>l. show_id l = s) lns') = mset (filter (\<lambda>l. show_id l = s) lns)"
        using p by simp
      then have "(\<Sum>l\<leftarrow>filter (\<lambda>l. show_id l = s) lns'. exact_contribution k l)
                 = (\<Sum>l\<leftarrow>filter (\<lambda>l. show_id l = s) lns. exact_contribution k l)"
        by (rule sum_list_perm)
      then show "boxes (group_of lns' s) k = boxes (group_of lns s) k"
        by (simp add: group_total_value [OF ex'] group_total_value [OF ex])
    qed
    have c: "consolidate (aggregate lns') = consolidate (aggregate lns)"
    proof
      fix k
      show "consolidate (aggregate lns') k = consolidate (aggregate lns) k"
        using sum_list_perm [OF p, of "exact_contribution k"]
        by (simp add: consolidated_value [OF ex'] consolidated_value [OF ex])
    qed
    show ?thesis
      using g c sets by (simp add: assign_boxes_def Let_def group_lookup)
  qed
  show ?thesis using grouping invariance by blast
qed

theorem totals_invariant_under_reordering_witness:
  "mset [ledger_line ''b'' ''purchases'' ''REDUCED'' (Fin (201 / 2)) (Fin (81 / 4)),
         ledger_line ''a'' ''sales'' ''T20'' (Fin (1 / 2)) (Fin (1 / 4))]
   = mset [ledger_line ''a'' ''sales'' ''T20'' (Fin (1 / 2)) (Fin (1 / 4)),
           ledger_line ''b'' ''purchases'' ''REDUCED'' (Fin (201 / 2)) (Fin (81 / 4))]
   \<and> adds_exactly (- 2) [ledger_line ''a'' ''sales'' ''T20'' (Fin (1 / 2)) (Fin (1 / 4)),
                         ledger_line ''b'' ''purchases'' ''REDUCED'' (Fin (201 / 2)) (Fin (81 / 4))]
   \<and> consolidated (assign_boxes
        [ledger_line ''b'' ''purchases'' ''REDUCED'' (Fin (201 / 2)) (Fin (81 / 4)),
         ledger_line ''a'' ''sales'' ''T20'' (Fin (1 / 2)) (Fin (1 / 4))])
       = consolidated (assign_boxes
        [ledger_line ''a'' ''sales'' ''T20'' (Fin (1 / 2)) (Fin (1 / 4)),
         ledger_line ''b'' ''purchases'' ''REDUCED'' (Fin (201 / 2)) (Fin (81 / 4))])
   \<and> map_option lines (map_of (per_show (assign_boxes
        [ledger_line ''a'' ''sales'' ''T20'' (Fin (1 / 2)) (Fin (1 / 4)),
         ledger_line ''b'' ''purchases'' ''REDUCED'' (Fin (201 / 2)) (Fin (81 / 4))])) ''b'')
       = Some [ledger_line ''b'' ''purchases'' ''REDUCED'' (Fin (201 / 2)) (Fin (81 / 4))]"
proof -
  let ?a = "ledger_line ''a'' ''sales'' ''T20'' (Fin (1 / 2)) (Fin (1 / 4))"
  let ?b = "ledger_line ''b'' ''purchases'' ''REDUCED'' (Fin (201 / 2)) (Fin (81 / 4))"
  have p: "mset [?b, ?a] = mset [?a, ?b]" by (simp add: add.commute)
  have e: "adds_exactly (- 2) [?a, ?b]"
    by (simp add: adds_exactly_def on_grid_def grid_def magnitude_def pow2_def ledger_line_def)
  have s: "show_id ?a = ''a''" "show_id ?b = ''b''" by (simp_all add: ledger_line_def)
  have "map_option lines (map_of (per_show (assign_boxes [?a, ?b])) ''b'') = Some [?b]"
    using totals_invariant_under_reordering [of "[?a, ?b]" "[?b, ?a]" "- 2"] s by simp
  then show ?thesis
    using p e totals_invariant_under_reordering [of "[?a, ?b]" "[?b, ?a]" "- 2"] by blast
qed

text \<open>
  C3 as stated fails: float addition rounds, so the order of the Lines can change a total.
  Three zero-rated sales of one show with the nets 0.1, 0.2 and 0.3 give box 6 the total
  0.6000000000000001 in this order and 0.6 in the reverse order.
\<close>

theorem reordering_changes_totals_counterexample:
  "mset [ledger_line ''a'' ''sales'' ''T0'' (round_double (3 / 10)) (Fin 0),
         ledger_line ''a'' ''sales'' ''T0'' (round_double (1 / 5)) (Fin 0),
         ledger_line ''a'' ''sales'' ''T0'' (round_double (1 / 10)) (Fin 0)]
   = mset [ledger_line ''a'' ''sales'' ''T0'' (round_double (1 / 10)) (Fin 0),
           ledger_line ''a'' ''sales'' ''T0'' (round_double (1 / 5)) (Fin 0),
           ledger_line ''a'' ''sales'' ''T0'' (round_double (3 / 10)) (Fin 0)]
   \<and> consolidated (assign_boxes
        [ledger_line ''a'' ''sales'' ''T0'' (round_double (1 / 10)) (Fin 0),
         ledger_line ''a'' ''sales'' ''T0'' (round_double (1 / 5)) (Fin 0),
         ledger_line ''a'' ''sales'' ''T0'' (round_double (3 / 10)) (Fin 0)]) Box6
       = Fin (1351079888211149 / 2251799813685248)
   \<and> consolidated (assign_boxes
        [ledger_line ''a'' ''sales'' ''T0'' (round_double (3 / 10)) (Fin 0),
         ledger_line ''a'' ''sales'' ''T0'' (round_double (1 / 5)) (Fin 0),
         ledger_line ''a'' ''sales'' ''T0'' (round_double (1 / 10)) (Fin 0)]) Box6
       = Fin (5404319552844595 / 9007199254740992)"
  by (simp add: assign_boxes_def aggregate_def consolidate_def init_acc_def apply_rules_def
        add_to_def rule_defs ledger_line_def round_double_fractions Let_def add.commute)

end
